theory Spec2Isabelle
  imports Main "HOL-Library.AList"
begin

section \<open>Python values\<close>

text \<open>
  The constructor of \<^verbatim>\<open>StatusMap\<close> inspects its argument dynamically
  (\<^verbatim>\<open>transitions.keys()\<close>, \<^verbatim>\<open>isinstance(edges, dict)\<close>, \<^verbatim>\<open>attributes.get\<close>,
  iteration), so the argument is modelled as a value of the Python types a transition
  table is written with: \<^verbatim>\<open>None\<close>, integers, strings, lists and dicts. A dict is an
  association list in insertion order. Booleans, floats, tuples and sets are left out.
\<close>

datatype pyval =
    PNone
  | PInt int
  | PStr string
  | PList "pyval list"
  | PDict "(pyval \<times> pyval) list"

text \<open>Lists and dicts are unhashable: using one as a dict key or set member raises
  \<^verbatim>\<open>TypeError\<close>.\<close>

fun hashable :: "pyval \<Rightarrow> bool" where
  "hashable (PList xs) = False"
| "hashable (PDict kvs) = False"
| "hashable v = True"

text \<open>An f-string is kept as its pieces: literal text and interpolated values.\<close>

datatype fpart = Lit string | Fmt pyval

type_synonym message = "fpart list"

text \<open>
  The five exceptions imported from \<^verbatim>\<open>.exceptions\<close>, the built-in exceptions the
  code can run into, and \<^verbatim>\<open>networkx.NetworkXError\<close>. \<^verbatim>\<open>SpecificationError\<close> is
  the name the specification uses for construction failures; no statement of the source
  raises it.
\<close>

datatype error =
    StatusNotFoundError message
  | AmbiguousTransitionError message
  | FutureTransitionError message
  | PastTransitionError message
  | TransitionNotFoundError message
  | SpecificationError
  | AttributeError
  | TypeError
  | ValueError
  | KeyError
  | NetworkXError

text \<open>\<^verbatim>\<open>for x in v\<close>: a list yields its elements, a string its characters, a dict its
  keys; \<^verbatim>\<open>None\<close> and integers are not iterable.\<close>

fun py_iter :: "pyval \<Rightarrow> error + pyval list" where
  "py_iter (PList xs) = Inr xs"
| "py_iter (PStr s) = Inr (map (\<lambda>c. PStr [c]) s)"
| "py_iter (PDict kvs) = Inr (map fst kvs)"
| "py_iter PNone = Inl TypeError"
| "py_iter (PInt i) = Inl TypeError"

section \<open>The part of networkx.DiGraph the class uses\<close>

text \<open>
  A \<^verbatim>\<open>DiGraph\<close> keeps its nodes in a dict (\<^verbatim>\<open>_node\<close>, insertion order) and its edges
  in nested dicts (\<^verbatim>\<open>_succ\<close>, \<^verbatim>\<open>_pred\<close>). The model keeps the node keys and the edge
  pairs of \<^verbatim>\<open>_succ\<close> in insertion order, without repetition. Edge attribute dicts are not kept: no
  operation below reads them.
\<close>

record DiGraph =
  nodes :: "pyval list"
  succ :: "(pyval \<times> pyval) list"

definition DiGraph_new :: "DiGraph" where
  "DiGraph_new = \<lparr>nodes = [], succ = []\<rparr>"

text \<open>\<^verbatim>\<open>has_node\<close> answers False, not TypeError, for an unhashable argument.\<close>

definition has_node :: "DiGraph \<Rightarrow> pyval \<Rightarrow> bool" where
  "has_node g n = (hashable n \<and> n \<in> set (nodes g))"

definition has_successor :: "DiGraph \<Rightarrow> pyval \<Rightarrow> pyval \<Rightarrow> bool" where
  "has_successor g u v = (u \<in> set (nodes g) \<and> (u, v) \<in> set (succ g))"

definition number_of_nodes :: "DiGraph \<Rightarrow> nat" where
  "number_of_nodes g = length (nodes g)"

text \<open>
  Registering a node, as \<^verbatim>\<open>add_nodes_from\<close> and \<^verbatim>\<open>add_edges_from\<close> do it:
  \<^verbatim>\<open>if n not in self._succ: if n is None: raise ValueError(...)\<close>, then the new entry.
  The membership test hashes \<^verbatim>\<open>n\<close>.
\<close>

definition register_node :: "DiGraph \<Rightarrow> pyval \<Rightarrow> error + DiGraph" where
  "register_node g n =
     (if \<not> hashable n then Inl TypeError
      else if n \<in> set (nodes g) then Inr g
      else if n = PNone then Inl ValueError
      else Inr (g\<lparr>nodes := nodes g @ [n]\<rparr>))"

fun add_nodes_from :: "DiGraph \<Rightarrow> pyval list \<Rightarrow> error + DiGraph" where
  "add_nodes_from g [] = Inr g"
| "add_nodes_from g (n # ns) =
     (case register_node g n of
        Inl e \<Rightarrow> Inl e
      | Inr g' \<Rightarrow> add_nodes_from g' ns)"

text \<open>One round of the loop of \<^verbatim>\<open>add_edges_from\<close>: both ends are registered, then the
  edge is stored in \<^verbatim>\<open>_succ[u][v]\<close>.\<close>

definition add_edge :: "DiGraph \<Rightarrow> pyval \<Rightarrow> pyval \<Rightarrow> error + DiGraph" where
  "add_edge g u v =
     (case register_node g u of
        Inl e \<Rightarrow> Inl e
      | Inr g1 \<Rightarrow>
          (case register_node g1 v of
             Inl e \<Rightarrow> Inl e
           | Inr g2 \<Rightarrow>
               Inr (if (u, v) \<in> set (succ g2) then g2
                    else g2\<lparr>succ := succ g2 @ [(u, v)]\<rparr>)))"

fun add_edges_from :: "DiGraph \<Rightarrow> (pyval \<times> pyval) list \<Rightarrow> error + DiGraph" where
  "add_edges_from g [] = Inr g"
| "add_edges_from g ((u, v) # es) =
     (case add_edge g u v of
        Inl e \<Rightarrow> Inl e
      | Inr g' \<Rightarrow> add_edges_from g' es)"

subsection \<open>Reachability: networkx.descendants and networkx.ancestors\<close>

text \<open>
  Both are the set of children yielded by a breadth-first search from the source
  (\<^verbatim>\<open>bfs_edges\<close>), over the successors for \<^verbatim>\<open>descendants\<close> and over the
  predecessors for \<^verbatim>\<open>ancestors\<close>. The search starts with the source visited, so the
  source itself is never in the result. A source that is not a node raises
  \<^verbatim>\<open>NetworkXError\<close>.
\<close>

definition neighbors :: "(pyval \<times> pyval) list \<Rightarrow> pyval \<Rightarrow> pyval list" where
  "neighbors es u = map snd (filter (\<lambda>e. fst e = u) es)"

function bfs :: "(pyval \<times> pyval) list \<Rightarrow> pyval list \<Rightarrow> pyval list \<Rightarrow> pyval list" where
  "bfs es [] visited = visited"
| "bfs es (parent # queue) visited =
     (let children = remdups (filter (\<lambda>c. c \<notin> set visited) (neighbors es parent))
      in bfs es (queue @ children) (visited @ children))"
  by pat_completeness auto

termination bfs
proof (relation "measures [\<lambda>(es, queue, visited). card (snd ` set es - set visited),
                           \<lambda>(es, queue, visited). length queue]", goal_cases)
  case 1
  show ?case by simp
next
  case (2 es parent queue visited children)
  show ?case
  proof (cases "children = []")
    case True
    then show ?thesis by simp
  next
    case False
    then obtain c where c: "c \<in> set children"
      by (cases children) auto
    with 2 have "c \<in> snd ` set es" and "c \<notin> set visited"
      by (auto simp: neighbors_def)
    with c have "snd ` set es - set (visited @ children) \<subset> snd ` set es - set visited"
      by auto
    then have "card (snd ` set es - set (visited @ children)) < card (snd ` set es - set visited)"
      by (simp add: psubset_card_mono)
    then show ?thesis by simp
  qed
qed

definition reversed :: "(pyval \<times> pyval) list \<Rightarrow> (pyval \<times> pyval) list" where
  "reversed es = map (\<lambda>(u, v). (v, u)) es"

definition nx_search :: "(pyval \<times> pyval) list \<Rightarrow> DiGraph \<Rightarrow> pyval \<Rightarrow> error + pyval set" where
  "nx_search es g source =
     (if \<not> hashable source then Inl TypeError
      else if source \<notin> set (nodes g) then Inl NetworkXError
      else Inr (set (bfs es [source] [source]) - {source}))"

definition descendants :: "DiGraph \<Rightarrow> pyval \<Rightarrow> error + pyval set" where
  "descendants g source = nx_search (succ g) g source"

definition ancestors :: "DiGraph \<Rightarrow> pyval \<Rightarrow> error + pyval set" where
  "ancestors g source = nx_search (reversed (succ g)) g source"

section \<open>functools.lru\_cache\<close>

text \<open>
  \<^verbatim>\<open>get_ancestors\<close> and \<^verbatim>\<open>get_descendants\<close> are static methods under
  \<^verbatim>\<open>@lru_cache(maxsize=512)\<close>: one cache each, shared by every \<^verbatim>\<open>StatusMap\<close> of the
  process, keyed by the arguments \<^verbatim>\<open>(graph, status)\<close>. A cache is the list of its
  entries, most recently used first. A hit moves the entry to the front; a miss calls
  the function, and stores the result in front, dropping the least recently used entry
  beyond 512; a call that raises stores nothing; an unhashable argument raises
  \<^verbatim>\<open>TypeError\<close> when the key is built.

  A \<^verbatim>\<open>DiGraph\<close> is hashed by identity. The class never changes a graph after
  \<^verbatim>\<open>__init__\<close>, and the cache keeps its keys alive, so an identity stands for one graph
  value as long as an entry exists; the key of the model is that value.
\<close>

type_synonym lru = "((DiGraph \<times> pyval) \<times> pyval set) list"

definition maxsize :: nat where
  "maxsize = 512"

definition lru_cache ::
  "(DiGraph \<Rightarrow> pyval \<Rightarrow> error + pyval set) \<Rightarrow> DiGraph \<Rightarrow> pyval \<Rightarrow> lru
     \<Rightarrow> (error + pyval set) \<times> lru" where
  "lru_cache f g status cache =
     (if \<not> hashable status then (Inl TypeError, cache)
      else case map_of cache (g, status) of
        Some r \<Rightarrow> (Inr r, ((g, status), r) # filter (\<lambda>entry. fst entry \<noteq> (g, status)) cache)
      | None \<Rightarrow>
          (case f g status of
             Inl e \<Rightarrow> (Inl e, cache)
           | Inr r \<Rightarrow> (Inr r, take maxsize (((g, status), r) # cache))))"

record caches =
  ancestors_cache :: lru
  descendants_cache :: lru

definition empty_caches :: caches where
  "empty_caches = \<lparr>ancestors_cache = [], descendants_cache = []\<rparr>"

definition get_ancestors :: "DiGraph \<Rightarrow> pyval \<Rightarrow> caches \<Rightarrow> (error + pyval set) \<times> caches" where
  "get_ancestors g status c =
     (case lru_cache ancestors g status (ancestors_cache c) of
        (r, cache') \<Rightarrow> (r, c\<lparr>ancestors_cache := cache'\<rparr>))"

definition get_descendants :: "DiGraph \<Rightarrow> pyval \<Rightarrow> caches \<Rightarrow> (error + pyval set) \<times> caches" where
  "get_descendants g status c =
     (case lru_cache descendants g status (descendants_cache c) of
        (r, cache') \<Rightarrow> (r, c\<lparr>descendants_cache := cache'\<rparr>))"

section \<open>StatusMap\<close>

text \<open>
  The object has the attribute \<^verbatim>\<open>_graph\<close> and, once \<^verbatim>\<open>_add_validation\<close> has run,
  the attribute \<^verbatim>\<open>_validations\<close>, a dict of dicts; \<open>None\<close> stands for the attribute
  not existing.
\<close>

type_synonym validations = "(pyval \<times> (pyval \<times> pyval) list) list"

record StatusMap =
  sm_graph :: DiGraph
  sm_validations :: "validations option"

text \<open>\<^verbatim>\<open>_add_validation\<close>: creates \<^verbatim>\<open>_validations\<close> and the inner dict where they are
  missing, then assigns \<^verbatim>\<open>self._validations[from_state][to_state] = validation_method\<close>.\<close>

definition add_validation ::
  "validations option \<Rightarrow> pyval \<Rightarrow> pyval \<Rightarrow> pyval \<Rightarrow> validations option" where
  "add_validation vs from_state to_state validation_method =
     (let d0 = (case vs of None \<Rightarrow> [] | Some d \<Rightarrow> d);
          d1 = (if from_state \<notin> fst ` set d0 then AList.update from_state [] d0 else d0);
          inner = (case map_of d1 from_state of None \<Rightarrow> [] | Some i \<Rightarrow> i)
      in Some (AList.update from_state (AList.update to_state validation_method inner) d1))"

fun add_validations ::
  "validations option \<Rightarrow> pyval \<Rightarrow> pyval \<Rightarrow> pyval list \<Rightarrow> validations option" where
  "add_validations vs from_state to_state [] = vs"
| "add_validations vs from_state to_state (validation_method # rest) =
     add_validations (add_validation vs from_state to_state validation_method)
       from_state to_state rest"

text \<open>\<^verbatim>\<open>d.get(key, default)\<close>; only a dict has the method.\<close>

fun py_get :: "pyval \<Rightarrow> pyval \<Rightarrow> pyval \<Rightarrow> error + pyval" where
  "py_get (PDict kvs) key dflt =
     (if \<not> hashable key then Inl TypeError
      else Inr (case map_of kvs key of None \<Rightarrow> dflt | Some v \<Rightarrow> v))"
| "py_get v key dflt = Inl AttributeError"

text \<open>\<^verbatim>\<open>_add_transition_validations\<close>, over the items of the dict \<^verbatim>\<open>transitions\<close>.\<close>

fun add_transition_validations ::
  "validations option \<Rightarrow> pyval \<Rightarrow> (pyval \<times> pyval) list \<Rightarrow> error + validations option" where
  "add_transition_validations vs from_state [] = Inr vs"
| "add_transition_validations vs from_state ((to_state, attributes) # rest) =
     (case py_get attributes (PStr ''validation'') (PList []) of
        Inl e \<Rightarrow> Inl e
      | Inr validation_methods \<Rightarrow>
          (case py_iter validation_methods of
             Inl e \<Rightarrow> Inl e
           | Inr ms \<Rightarrow>
               add_transition_validations (add_validations vs from_state to_state ms)
                 from_state rest))"

text \<open>\<^verbatim>\<open>transitions[node]\<close> on a dict.\<close>

definition dict_getitem :: "(pyval \<times> pyval) list \<Rightarrow> pyval \<Rightarrow> error + pyval" where
  "dict_getitem kvs key =
     (if \<not> hashable key then Inl TypeError
      else case map_of kvs key of None \<Rightarrow> Inl KeyError | Some v \<Rightarrow> Inr v)"

text \<open>
  The body of the loop of \<^verbatim>\<open>__init__\<close> for one node. In the dict branch the
  generator \<^verbatim>\<open>edges_to_add\<close> is consumed by \<^verbatim>\<open>add_edges_from\<close> only after
  \<^verbatim>\<open>_add_transition_validations\<close> has returned.
\<close>

fun init_node ::
  "DiGraph \<times> validations option \<Rightarrow> pyval \<Rightarrow> pyval \<Rightarrow> error + DiGraph \<times> validations option" where
  "init_node (g, vs) node (PDict edges) =
     (case add_transition_validations vs node edges of
        Inl e \<Rightarrow> Inl e
      | Inr vs' \<Rightarrow>
          (case add_edges_from g (map (\<lambda>(edge, attribute). (node, edge)) edges) of
             Inl e \<Rightarrow> Inl e
           | Inr g' \<Rightarrow> Inr (g', vs')))"
| "init_node (g, vs) node edges =
     (case py_iter edges of
        Inl e \<Rightarrow> Inl e
      | Inr targets \<Rightarrow>
          (case add_edges_from g (map (\<lambda>edge. (node, edge)) targets) of
             Inl e \<Rightarrow> Inl e
           | Inr g' \<Rightarrow> Inr (g', vs)))"

fun init_loop ::
  "(pyval \<times> pyval) list \<Rightarrow> DiGraph \<times> validations option \<Rightarrow> pyval list
     \<Rightarrow> error + DiGraph \<times> validations option" where
  "init_loop transitions st [] = Inr st"
| "init_loop transitions st (node # rest) =
     (case dict_getitem transitions node of
        Inl e \<Rightarrow> Inl e
      | Inr edges \<Rightarrow>
          (case init_node st node edges of
             Inl e \<Rightarrow> Inl e
           | Inr st' \<Rightarrow> init_loop transitions st' rest))"

text \<open>\<^verbatim>\<open>StatusMap.__init__\<close>. Only a dict has \<^verbatim>\<open>keys()\<close>; \<^verbatim>\<open>nodes\<close> is a copy of
  the node view taken before any edge is added.\<close>

fun StatusMap_init :: "pyval \<Rightarrow> error + StatusMap" where
  "StatusMap_init (PDict transitions) =
     (case add_nodes_from DiGraph_new (map fst transitions) of
        Inl e \<Rightarrow> Inl e
      | Inr graph \<Rightarrow>
          (case init_loop transitions (graph, None) (nodes graph) of
             Inl e \<Rightarrow> Inl e
           | Inr (graph', vs) \<Rightarrow> Inr \<lparr>sm_graph = graph', sm_validations = vs\<rparr>))"
| "StatusMap_init transitions = Inl AttributeError"

text \<open>\<^verbatim>\<open>__getitem__\<close> is \<^verbatim>\<open>self._graph[node]\<close>, the view of the successors of the
  node; \<^verbatim>\<open>__contains__\<close> is inherited from \<^verbatim>\<open>Mapping\<close>: it tries \<^verbatim>\<open>self[key]\<close> and
  answers False on \<^verbatim>\<open>KeyError\<close>.\<close>

definition StatusMap_getitem :: "StatusMap \<Rightarrow> pyval \<Rightarrow> error + pyval list" where
  "StatusMap_getitem self node =
     (if \<not> hashable node then Inl TypeError
      else if node \<notin> set (nodes (sm_graph self)) then Inl KeyError
      else Inr (neighbors (succ (sm_graph self)) node))"

definition StatusMap_contains :: "StatusMap \<Rightarrow> pyval \<Rightarrow> error + bool" where
  "StatusMap_contains self key =
     (case StatusMap_getitem self key of
        Inl e \<Rightarrow> (if e = KeyError then Inr False else Inl e)
      | Inr view \<Rightarrow> Inr True)"

definition StatusMap_len :: "StatusMap \<Rightarrow> nat" where
  "StatusMap_len self = number_of_nodes (sm_graph self)"

definition StatusMap_iter :: "StatusMap \<Rightarrow> pyval list" where
  "StatusMap_iter self = nodes (sm_graph self)"

definition statuses :: "StatusMap \<Rightarrow> pyval list" where
  "statuses self = nodes (sm_graph self)"

text \<open>\<^verbatim>\<open>get_validations\<close>: \<^verbatim>\<open>self._validations\<close> raises \<^verbatim>\<open>AttributeError\<close> while the
  attribute does not exist; each \<^verbatim>\<open>get\<close> hashes its key.\<close>

definition get_validations :: "StatusMap \<Rightarrow> pyval \<Rightarrow> pyval \<Rightarrow> error + pyval" where
  "get_validations self from_state to_state =
     (case sm_validations self of
        None \<Rightarrow> Inl AttributeError
      | Some d \<Rightarrow>
          (if \<not> hashable from_state then Inl TypeError
           else if \<not> hashable to_state then Inl TypeError
           else (case map_of d from_state of
                   None \<Rightarrow> Inr (PList [])
                 | Some inner \<Rightarrow>
                     (case map_of inner to_state of
                        None \<Rightarrow> Inr (PList [])
                      | Some v \<Rightarrow> Inr v))))"

text \<open>\<^verbatim>\<open>validate_transition\<close>: returning is \<open>Inr ()\<close>; the caches are threaded
  through the two cached calls.\<close>

definition validate_transition ::
  "StatusMap \<Rightarrow> pyval \<Rightarrow> pyval \<Rightarrow> caches \<Rightarrow> (error + unit) \<times> caches" where
  "validate_transition self from_status to_status c =
     (if \<not> has_node (sm_graph self) from_status then
        (Inl (StatusNotFoundError [Lit ''from_status '', Fmt from_status, Lit '' not found'']), c)
      else if \<not> has_node (sm_graph self) to_status then
        (Inl (StatusNotFoundError [Lit ''to_status '', Fmt to_status, Lit '' not found'']), c)
      else if from_status = to_status \<or> has_successor (sm_graph self) from_status to_status then
        (Inr (), c)
      else
        (case get_ancestors (sm_graph self) from_status c of
           (Inl e, c1) \<Rightarrow> (Inl e, c1)
         | (Inr anc, c1) \<Rightarrow>
             (case get_descendants (sm_graph self) from_status c1 of
                (Inl e, c2) \<Rightarrow> (Inl e, c2)
              | (Inr desc, c2) \<Rightarrow>
                  (let is_ancestor = to_status \<in> anc;
                       is_descendant = to_status \<in> desc
                   in if is_ancestor \<and> is_descendant then
                        (Inl (AmbiguousTransitionError
                           [Lit ''from '', Fmt from_status, Lit '' to '', Fmt to_status,
                            Lit '' is both past and future'']), c2)
                      else if is_descendant then
                        (Inl (FutureTransitionError
                           [Lit ''from '', Fmt from_status, Lit '' to '', Fmt to_status,
                            Lit '' should happen in the future'']), c2)
                      else if is_ancestor then
                        (Inl (PastTransitionError
                           [Lit ''from '', Fmt from_status, Lit '' to '', Fmt to_status,
                            Lit '' should have happened in the past'']), c2)
                      else
                        (Inl (TransitionNotFoundError
                           [Lit ''from '', Fmt from_status, Lit '' to '', Fmt to_status,
                            Lit '' not found'']), c2)))))"

section \<open>Invariants\<close>

text \<open>A cache is sound when every entry holds what the cached function returns for its
  key; the cache states of interest are those reached from the empty caches by calls of
  the two cached functions and of \<^verbatim>\<open>validate_transition\<close>, on any graphs and
  statuses.\<close>

definition lru_ok :: "(DiGraph \<Rightarrow> pyval \<Rightarrow> error + pyval set) \<Rightarrow> lru \<Rightarrow> bool" where
  "lru_ok f cache = (\<forall>entry\<in>set cache. f (fst (fst entry)) (snd (fst entry)) = Inr (snd entry))"

definition caches_ok :: "caches \<Rightarrow> bool" where
  "caches_ok c = (lru_ok ancestors (ancestors_cache c) \<and> lru_ok descendants (descendants_cache c))"

inductive reachable_caches :: "caches \<Rightarrow> bool" where
  start: "reachable_caches empty_caches"
| after_get_ancestors:
    "reachable_caches c \<Longrightarrow> reachable_caches (snd (get_ancestors g status c))"
| after_get_descendants:
    "reachable_caches c \<Longrightarrow> reachable_caches (snd (get_descendants g status c))"
| after_validate_transition:
    "reachable_caches c \<Longrightarrow> reachable_caches (snd (validate_transition self from_status to_status c))"

text \<open>What networkx maintains of a graph: nodes are hashable, never \<^verbatim>\<open>None\<close>, stored
  once, and both ends of an edge are nodes.\<close>

definition graph_inv :: "DiGraph \<Rightarrow> bool" where
  "graph_inv g =
     ((\<forall>n\<in>set (nodes g). hashable n \<and> n \<noteq> PNone) \<and> distinct (nodes g) \<and>
      (\<forall>e\<in>set (succ g). fst e \<in> set (nodes g) \<and> snd e \<in> set (nodes g)))"

section \<open>Properties\<close>

subsection \<open>Breadth-first search computes the reflexive transitive closure\<close>

declare bfs.simps [simp del]

lemma set_neighbors: "set (neighbors es u) = set es `` {u}"
  by (force simp: neighbors_def)

lemma bfs_closure:
  assumes "set queue \<subseteq> set visited"
    and "\<forall>x\<in>set visited. x \<notin> set queue \<longrightarrow> set es `` {x} \<subseteq> set visited"
  shows "set (bfs es queue visited) = (set es)\<^sup>* `` set visited"
  using assms
proof (induction es queue visited rule: bfs.induct)
  case (1 es visited)
  then have closed: "set es `` set visited \<subseteq> set visited"
    by auto
  have "(set es)\<^sup>* `` set visited \<subseteq> set visited"
  proof
    fix y
    assume "y \<in> (set es)\<^sup>* `` set visited"
    then obtain x where "x \<in> set visited" and "(x, y) \<in> (set es)\<^sup>*"
      by auto
    from this(2,1) show "y \<in> set visited"
      using closed by (induction rule: rtrancl_induct) auto
  qed
  then show ?case by (auto simp: bfs.simps)
next
  case (2 es parent queue visited)
  define children where
    "children = remdups (filter (\<lambda>c. c \<notin> set visited) (neighbors es parent))"
  have ch: "set children = set es `` {parent} - set visited"
    by (auto simp: children_def set_neighbors)
  have parent: "parent \<in> set visited"
    using "2.prems"(1) by simp
  have q: "set (queue @ children) \<subseteq> set (visited @ children)"
    using "2.prems"(1) by auto
  have inv: "\<forall>x\<in>set (visited @ children). x \<notin> set (queue @ children)
               \<longrightarrow> set es `` {x} \<subseteq> set (visited @ children)"
  proof (intro ballI impI)
    fix x
    assume x: "x \<in> set (visited @ children)" and nq: "x \<notin> set (queue @ children)"
    then have xv: "x \<in> set visited" by auto
    show "set es `` {x} \<subseteq> set (visited @ children)"
    proof (cases "x = parent")
      case True
      then show ?thesis using ch by auto
    next
      case False
      with nq have "x \<notin> set (parent # queue)" by simp
      with "2.prems"(2) xv have "set es `` {x} \<subseteq> set visited" by blast
      then show ?thesis by auto
    qed
  qed
  have "set (bfs es (queue @ children) (visited @ children))
          = (set es)\<^sup>* `` set (visited @ children)"
    using "2.IH" [OF children_def q inv] .
  moreover have "(set es)\<^sup>* `` set (visited @ children) = (set es)\<^sup>* `` set visited"
  proof
    show "(set es)\<^sup>* `` set (visited @ children) \<subseteq> (set es)\<^sup>* `` set visited"
    proof
      fix y
      assume "y \<in> (set es)\<^sup>* `` set (visited @ children)"
      then obtain x where x: "x \<in> set visited \<or> x \<in> set children" and xy: "(x, y) \<in> (set es)\<^sup>*"
        by auto
      from x show "y \<in> (set es)\<^sup>* `` set visited"
      proof
        assume "x \<in> set visited"
        with xy show ?thesis by auto
      next
        assume "x \<in> set children"
        with ch have "(parent, x) \<in> set es" by auto
        with xy have "(parent, y) \<in> (set es)\<^sup>*"
          by (meson converse_rtrancl_into_rtrancl)
        with parent show ?thesis by auto
      qed
    qed
  next
    show "(set es)\<^sup>* `` set visited \<subseteq> (set es)\<^sup>* `` set (visited @ children)"
      by auto
  qed
  ultimately show ?case
    by (simp add: bfs.simps children_def Let_def)
qed

lemma bfs_source: "set (bfs es [s] [s]) = (set es)\<^sup>* `` {s}"
  using bfs_closure [of "[s]" "[s]" es] by simp

lemma set_reversed: "set (reversed es) = (set es)\<inverse>"
  by (force simp: reversed_def)

lemma in_search:
  "v \<in> set (bfs es [s] [s]) - {s} \<longleftrightarrow> v \<noteq> s \<and> (s, v) \<in> (set es)\<^sup>+"
proof -
  have "v \<in> (set es)\<^sup>* `` {s} - {s} \<longleftrightarrow> v \<noteq> s \<and> (s, v) \<in> (set es)\<^sup>+"
    by (auto simp: rtrancl_eq_or_trancl)
  then show ?thesis
    by (simp only: bfs_source)
qed

lemma descendants_node:
  assumes "has_node g s"
  shows "descendants g s = Inr {v. v \<noteq> s \<and> (s, v) \<in> (set (succ g))\<^sup>+}"
proof -
  have "set (bfs (succ g) [s] [s]) - {s} = {v. v \<noteq> s \<and> (s, v) \<in> (set (succ g))\<^sup>+}"
    using in_search by blast
  with assms show ?thesis
    by (simp add: descendants_def nx_search_def has_node_def)
qed

lemma ancestors_node:
  assumes "has_node g s"
  shows "ancestors g s = Inr {v. v \<noteq> s \<and> (v, s) \<in> (set (succ g))\<^sup>+}"
proof -
  have "set (bfs (reversed (succ g)) [s] [s]) - {s}
          = {v. v \<noteq> s \<and> (s, v) \<in> ((set (succ g))\<inverse>)\<^sup>+}"
    using in_search [of _ "reversed (succ g)"] by (simp add: set_reversed) blast
  also have "\<dots> = {v. v \<noteq> s \<and> (v, s) \<in> (set (succ g))\<^sup>+}"
    by (simp add: trancl_converse)
  finally show ?thesis
    using assms by (simp add: ancestors_def nx_search_def has_node_def)
qed

subsection \<open>The cache never changes an answer\<close>

lemma lru_cache_fst:
  assumes "lru_ok f cache"
  shows "fst (lru_cache f g status cache) = (if \<not> hashable status then Inl TypeError else f g status)"
proof (cases "map_of cache (g, status)")
  case None
  then show ?thesis
    by (simp add: lru_cache_def split: sum.splits)
next
  case (Some r)
  then have "((g, status), r) \<in> set cache"
    by (rule map_of_SomeD)
  with assms have "f g status = Inr r"
    by (force simp: lru_ok_def)
  with Some show ?thesis
    by (simp add: lru_cache_def)
qed

lemma lru_cache_snd:
  assumes "lru_ok f cache"
  shows "lru_ok f (snd (lru_cache f g status cache))"
proof (cases "map_of cache (g, status)")
  case None
  show ?thesis
  proof (cases "f g status")
    case (Inl e)
    with None assms show ?thesis
      by (simp add: lru_cache_def)
  next
    case (Inr r)
    have "set (take maxsize (((g, status), r) # cache)) \<subseteq> insert ((g, status), r) (set cache)"
      using set_take_subset [of maxsize "((g, status), r) # cache"] by simp
    with assms Inr have "lru_ok f (take maxsize (((g, status), r) # cache))"
      unfolding lru_ok_def by fastforce
    with None Inr assms show ?thesis
      by (simp add: lru_cache_def)
  qed
next
  case (Some r)
  then have "((g, status), r) \<in> set cache"
    by (rule map_of_SomeD)
  with assms have "f g status = Inr r"
    by (force simp: lru_ok_def)
  with assms have "lru_ok f (((g, status), r) # filter (\<lambda>entry. fst entry \<noteq> (g, status)) cache)"
    by (simp add: lru_ok_def)
  with Some assms show ?thesis
    by (simp add: lru_cache_def)
qed

lemma get_ancestors_ok:
  assumes "caches_ok c"
  obtains c' where
    "get_ancestors g status c = (if \<not> hashable status then Inl TypeError else ancestors g status, c')"
    and "caches_ok c'"
proof -
  from assms have ok: "lru_ok ancestors (ancestors_cache c)"
    by (simp add: caches_ok_def)
  obtain r cache' where l: "lru_cache ancestors g status (ancestors_cache c) = (r, cache')"
    by (cases "lru_cache ancestors g status (ancestors_cache c)")
  with lru_cache_fst [OF ok, of g status] lru_cache_snd [OF ok, of g status]
  have "r = (if \<not> hashable status then Inl TypeError else ancestors g status)" and "lru_ok ancestors cache'"
    by simp_all
  with l assms have "get_ancestors g status c
      = (if \<not> hashable status then Inl TypeError else ancestors g status, c\<lparr>ancestors_cache := cache'\<rparr>)"
    and "caches_ok (c\<lparr>ancestors_cache := cache'\<rparr>)"
    by (simp_all add: get_ancestors_def caches_ok_def)
  then show thesis ..
qed

lemma get_descendants_ok:
  assumes "caches_ok c"
  obtains c' where
    "get_descendants g status c = (if \<not> hashable status then Inl TypeError else descendants g status, c')"
    and "caches_ok c'"
proof -
  from assms have ok: "lru_ok descendants (descendants_cache c)"
    by (simp add: caches_ok_def)
  obtain r cache' where l: "lru_cache descendants g status (descendants_cache c) = (r, cache')"
    by (cases "lru_cache descendants g status (descendants_cache c)")
  with lru_cache_fst [OF ok, of g status] lru_cache_snd [OF ok, of g status]
  have "r = (if \<not> hashable status then Inl TypeError else descendants g status)" and "lru_ok descendants cache'"
    by simp_all
  with l assms have "get_descendants g status c
      = (if \<not> hashable status then Inl TypeError else descendants g status, c\<lparr>descendants_cache := cache'\<rparr>)"
    and "caches_ok (c\<lparr>descendants_cache := cache'\<rparr>)"
    by (simp_all add: get_descendants_def caches_ok_def)
  then show thesis ..
qed

lemma validate_transition_slow:
  assumes ok: "caches_ok c"
    and f: "has_node (sm_graph self) from_status"
    and t: "has_node (sm_graph self) to_status"
    and ne: "from_status \<noteq> to_status"
    and ns: "\<not> has_successor (sm_graph self) from_status to_status"
  obtains c' where "caches_ok c'"
    and "validate_transition self from_status to_status c =
      (if (to_status, from_status) \<in> (set (succ (sm_graph self)))\<^sup>+
          \<and> (from_status, to_status) \<in> (set (succ (sm_graph self)))\<^sup>+ then
         Inl (AmbiguousTransitionError
           [Lit ''from '', Fmt from_status, Lit '' to '', Fmt to_status,
            Lit '' is both past and future''])
       else if (from_status, to_status) \<in> (set (succ (sm_graph self)))\<^sup>+ then
         Inl (FutureTransitionError
           [Lit ''from '', Fmt from_status, Lit '' to '', Fmt to_status,
            Lit '' should happen in the future''])
       else if (to_status, from_status) \<in> (set (succ (sm_graph self)))\<^sup>+ then
         Inl (PastTransitionError
           [Lit ''from '', Fmt from_status, Lit '' to '', Fmt to_status,
            Lit '' should have happened in the past''])
       else
         Inl (TransitionNotFoundError
           [Lit ''from '', Fmt from_status, Lit '' to '', Fmt to_status,
            Lit '' not found'']), c')"
proof -
  from f have h: "hashable from_status"
    by (simp add: has_node_def)
  obtain c1 where c1: "get_ancestors (sm_graph self) from_status c
      = (ancestors (sm_graph self) from_status, c1)" and ok1: "caches_ok c1"
    using get_ancestors_ok [OF ok, of "sm_graph self" from_status] h by auto
  obtain c2 where c2: "get_descendants (sm_graph self) from_status c1
      = (descendants (sm_graph self) from_status, c2)" and ok2: "caches_ok c2"
    using get_descendants_ok [OF ok1, of "sm_graph self" from_status] h by auto
  have "validate_transition self from_status to_status c =
      (if (to_status, from_status) \<in> (set (succ (sm_graph self)))\<^sup>+
          \<and> (from_status, to_status) \<in> (set (succ (sm_graph self)))\<^sup>+ then
         Inl (AmbiguousTransitionError
           [Lit ''from '', Fmt from_status, Lit '' to '', Fmt to_status,
            Lit '' is both past and future''])
       else if (from_status, to_status) \<in> (set (succ (sm_graph self)))\<^sup>+ then
         Inl (FutureTransitionError
           [Lit ''from '', Fmt from_status, Lit '' to '', Fmt to_status,
            Lit '' should happen in the future''])
       else if (to_status, from_status) \<in> (set (succ (sm_graph self)))\<^sup>+ then
         Inl (PastTransitionError
           [Lit ''from '', Fmt from_status, Lit '' to '', Fmt to_status,
            Lit '' should have happened in the past''])
       else
         Inl (TransitionNotFoundError
           [Lit ''from '', Fmt from_status, Lit '' to '', Fmt to_status,
            Lit '' not found'']), c2)"
    using f t ne ns
    by (simp add: validate_transition_def c1 c2 ancestors_node [OF f] descendants_node [OF f]
        Let_def)
  with ok2 show thesis
    using that by blast
qed

lemma validate_transition_caches_ok:
  assumes "caches_ok c"
  shows "caches_ok (snd (validate_transition self from_status to_status c))"
proof (cases "has_node (sm_graph self) from_status \<and> has_node (sm_graph self) to_status
    \<and> from_status \<noteq> to_status \<and> \<not> has_successor (sm_graph self) from_status to_status")
  case True
  then show ?thesis
    using validate_transition_slow [OF assms, of self from_status to_status] by force
next
  case False
  with assms show ?thesis
    by (auto simp: validate_transition_def)
qed

lemma reachable_caches_ok: "reachable_caches c \<Longrightarrow> caches_ok c"
proof (induction rule: reachable_caches.induct)
  case start
  show ?case
    by (simp add: caches_ok_def lru_ok_def empty_caches_def)
next
  case (after_get_ancestors c g status)
  then show ?case
    using get_ancestors_ok [of c g status] by (metis snd_conv)
next
  case (after_get_descendants c g status)
  then show ?case
    using get_descendants_ok [of c g status] by (metis snd_conv)
next
  case (after_validate_transition c self from_status to_status)
  from after_validate_transition.IH show ?case
    by (rule validate_transition_caches_ok)
qed

subsection \<open>Building the graph\<close>

lemma register_node_Inr:
  assumes "register_node g n = Inr g'"
  shows "set (nodes g') = insert n (set (nodes g))" and "succ g' = succ g"
    and "graph_inv g \<Longrightarrow> graph_inv g'"
proof -
  from assms have g': "g' = g \<and> n \<in> set (nodes g)
      \<or> g' = g\<lparr>nodes := nodes g @ [n]\<rparr> \<and> n \<notin> set (nodes g) \<and> hashable n \<and> n \<noteq> PNone"
    by (auto simp: register_node_def split: if_splits)
  then show "set (nodes g') = insert n (set (nodes g))" and "succ g' = succ g"
    by auto
  assume "graph_inv g"
  with g' show "graph_inv g'"
    unfolding graph_inv_def by fastforce
qed

lemma register_node_Inl:
  assumes "register_node g n = Inl e"
  shows "e = TypeError \<or> e = ValueError"
  using assms by (auto simp: register_node_def split: if_splits)

lemma add_nodes_from_Inr:
  assumes "add_nodes_from g ns = Inr g'"
  shows "set (nodes g') = set (nodes g) \<union> set ns \<and> succ g' = succ g \<and> (graph_inv g \<longrightarrow> graph_inv g')"
  using assms
proof (induction ns arbitrary: g)
  case Nil
  then show ?case by simp
next
  case (Cons n ns)
  then obtain g1 where r: "register_node g n = Inr g1" and a: "add_nodes_from g1 ns = Inr g'"
    by (auto split: sum.splits)
  from Cons.IH [OF a] register_node_Inr [OF r] show ?case
    by auto
qed

lemma add_nodes_from_Inl:
  assumes "add_nodes_from g ns = Inl e"
  shows "e = TypeError \<or> e = ValueError"
  using assms
proof (induction ns arbitrary: g)
  case Nil
  then show ?case by simp
next
  case (Cons n ns)
  then show ?case
    by (auto split: sum.splits dest: register_node_Inl)
qed

lemma add_edge_Inr:
  assumes "add_edge g u v = Inr g'"
  shows "set (nodes g') = insert u (insert v (set (nodes g)))"
    and "set (succ g') = insert (u, v) (set (succ g))"
    and "graph_inv g \<Longrightarrow> graph_inv g'"
proof -
  from assms obtain g1 g2 where r1: "register_node g u = Inr g1"
    and r2: "register_node g1 v = Inr g2"
    and g': "g' = (if (u, v) \<in> set (succ g2) then g2 else g2\<lparr>succ := succ g2 @ [(u, v)]\<rparr>)"
    by (auto simp: add_edge_def split: sum.splits)
  note n1 = register_node_Inr [OF r1] and n2 = register_node_Inr [OF r2]
  show "set (nodes g') = insert u (insert v (set (nodes g)))"
    using n1(1) n2(1) g' by auto
  show "set (succ g') = insert (u, v) (set (succ g))"
    using n1(2) n2(2) g' by auto
  assume "graph_inv g"
  then have "graph_inv g2"
    using n1(3) n2(3) by blast
  moreover have "u \<in> set (nodes g2)" and "v \<in> set (nodes g2)"
    using n1(1) n2(1) by auto
  ultimately show "graph_inv g'"
    using g' by (auto simp: graph_inv_def)
qed

lemma add_edge_Inl:
  assumes "add_edge g u v = Inl e"
  shows "e = TypeError \<or> e = ValueError"
  using assms by (auto simp: add_edge_def split: sum.splits dest: register_node_Inl)

lemma add_edges_from_Inr:
  assumes "add_edges_from g es = Inr g'"
  shows "set (nodes g') = set (nodes g) \<union> fst ` set es \<union> snd ` set es
    \<and> set (succ g') = set (succ g) \<union> set es \<and> (graph_inv g \<longrightarrow> graph_inv g')"
  using assms
proof (induction g es rule: add_edges_from.induct)
  case (1 g)
  then show ?case by simp
next
  case (2 g u v es)
  then obtain g1 where a: "add_edge g u v = Inr g1" and r: "add_edges_from g1 es = Inr g'"
    by (auto split: sum.splits)
  from "2.IH" [OF a r] add_edge_Inr [OF a] show ?case
    by auto
qed

lemma add_edges_from_Inl:
  assumes "add_edges_from g es = Inl e"
  shows "e = TypeError \<or> e = ValueError"
  using assms
proof (induction g es rule: add_edges_from.induct)
  case (1 g)
  then show ?case by simp
next
  case (2 g u v es)
  then show ?case
    by (auto split: sum.splits dest: add_edge_Inl)
qed

lemma py_iter_Inl: "py_iter v = Inl e \<Longrightarrow> e = TypeError"
  by (cases v) auto

lemma py_get_validation_Inl: "py_get a (PStr ''validation'') d = Inl e \<Longrightarrow> e = AttributeError"
  by (cases a) auto

lemma add_transition_validations_Inl:
  assumes "add_transition_validations vs from_state items = Inl e"
  shows "e = AttributeError \<or> e = TypeError"
  using assms
proof (induction vs from_state items rule: add_transition_validations.induct)
  case (1 vs from_state)
  then show ?case by simp
next
  case (2 vs from_state to_state attributes rest)
  then show ?case
    by (auto split: sum.splits dest: py_iter_Inl py_get_validation_Inl)
qed

text \<open>The edges one node declares: the keys of a dict, the elements of anything else
  that can be iterated.\<close>

lemma init_node_Inr:
  assumes "init_node (g, vs) node entry = Inr (g', vs')"
  obtains targets where "py_iter entry = Inr targets"
    and "set (nodes g') = set (nodes g) \<union> (if targets = [] then {} else {node}) \<union> set targets"
    and "set (succ g') = set (succ g) \<union> {node} \<times> set targets"
    and "graph_inv g \<longrightarrow> graph_inv g'"
proof (cases "\<exists>items. entry = PDict items")
  case True
  then obtain items where e: "entry = PDict items" ..
  with assms have a: "add_edges_from g (map (\<lambda>(edge, attribute). (node, edge)) items) = Inr g'"
    by (auto split: sum.splits)
  have f: "fst ` set (map (\<lambda>(edge, attribute). (node, edge)) items) = (if items = [] then {} else {node})"
    by (cases items) (auto simp: image_iff split: prod.splits)
  have s: "snd ` set (map (\<lambda>(edge, attribute). (node, edge)) items) = fst ` set items"
    by (force simp: image_iff split: prod.splits)
  have p: "set (map (\<lambda>(edge, attribute). (node, edge)) items) = {node} \<times> fst ` set items"
    by (force simp: image_iff split: prod.splits)
  from add_edges_from_Inr [OF a] f s p e
  have "py_iter entry = Inr (map fst items)"
    and "set (nodes g') = set (nodes g) \<union> (if map fst items = [] then {} else {node}) \<union> set (map fst items)"
    and "set (succ g') = set (succ g) \<union> {node} \<times> set (map fst items)"
    and "graph_inv g \<longrightarrow> graph_inv g'"
    by simp_all
  then show thesis
    using that by blast
next
  case False
  with assms obtain targets where i: "py_iter entry = Inr targets"
    and a: "add_edges_from g (map (\<lambda>edge. (node, edge)) targets) = Inr g'"
    by (cases entry) (auto split: sum.splits)
  have f: "fst ` set (map (\<lambda>edge. (node, edge)) targets) = (if targets = [] then {} else {node})"
    by (cases targets) (auto simp: image_iff)
  have s: "snd ` set (map (\<lambda>edge. (node, edge)) targets) = set targets"
    by (force simp: image_iff)
  have p: "set (map (\<lambda>edge. (node, edge)) targets) = {node} \<times> set targets"
    by (force simp: image_iff)
  from add_edges_from_Inr [OF a] f s p i
  have "set (nodes g') = set (nodes g) \<union> (if targets = [] then {} else {node}) \<union> set targets"
    and "set (succ g') = set (succ g) \<union> {node} \<times> set targets"
    and "graph_inv g \<longrightarrow> graph_inv g'"
    by simp_all
  with i show thesis
    using that by blast
qed

lemma init_node_Inl:
  assumes "init_node (g, vs) node entry = Inl e"
  shows "e = AttributeError \<or> e = TypeError \<or> e = ValueError"
  using assms
  by (cases entry)
    (auto split: sum.splits dest: py_iter_Inl add_edges_from_Inl add_transition_validations_Inl)

lemma init_loop_Inr:
  assumes "init_loop transitions (g, vs) ns = Inr (g', vs')"
  shows "set (nodes g) \<subseteq> set (nodes g') \<and> set (succ g) \<subseteq> set (succ g')
    \<and> (graph_inv g \<longrightarrow> graph_inv g')
    \<and> (\<forall>n\<in>set ns. \<exists>entry targets. map_of transitions n = Some entry
          \<and> py_iter entry = Inr targets
          \<and> set targets \<subseteq> set (nodes g') \<and> {n} \<times> set targets \<subseteq> set (succ g'))"
  using assms
proof (induction ns arbitrary: g vs)
  case Nil
  then show ?case by simp
next
  case (Cons n ns)
  then obtain entry g1 vs1 where d: "dict_getitem transitions n = Inr entry"
    and i: "init_node (g, vs) n entry = Inr (g1, vs1)"
    and l: "init_loop transitions (g1, vs1) ns = Inr (g', vs')"
    by (auto split: sum.splits)
  from d have m: "map_of transitions n = Some entry"
    by (auto simp: dict_getitem_def split: if_splits option.splits)
  from i obtain targets where t: "py_iter entry = Inr targets"
    and n1: "set (nodes g1) = set (nodes g) \<union> (if targets = [] then {} else {n}) \<union> set targets"
    and s1: "set (succ g1) = set (succ g) \<union> {n} \<times> set targets"
    and i1: "graph_inv g \<longrightarrow> graph_inv g1"
    by (rule init_node_Inr)
  note ih = Cons.IH [OF l]
  have "set targets \<subseteq> set (nodes g')" and "{n} \<times> set targets \<subseteq> set (succ g')"
    using ih n1 s1 by auto
  with m t have "\<exists>entry targets. map_of transitions n = Some entry
          \<and> py_iter entry = Inr targets
          \<and> set targets \<subseteq> set (nodes g') \<and> {n} \<times> set targets \<subseteq> set (succ g')"
    by blast
  moreover have "set (nodes g) \<subseteq> set (nodes g')" and "set (succ g) \<subseteq> set (succ g')"
    using ih n1 s1 by auto
  moreover have "graph_inv g \<longrightarrow> graph_inv g'"
    using ih i1 by blast
  ultimately show ?case
    using ih by simp
qed

lemma init_loop_Inl:
  assumes "init_loop transitions (g, vs) ns = Inl e"
    and "\<forall>n\<in>set ns. hashable n \<and> n \<in> fst ` set transitions"
  shows "e = AttributeError \<or> e = TypeError \<or> e = ValueError"
  using assms
proof (induction ns arbitrary: g vs)
  case Nil
  then show ?case by simp
next
  case (Cons n ns)
  from Cons.prems(2) have "hashable n" and "n \<in> fst ` set transitions"
    by simp_all
  then obtain entry where d: "dict_getitem transitions n = Inr entry"
    by (cases "map_of transitions n") (auto simp: dict_getitem_def map_of_eq_None_iff)
  show ?case
  proof (cases "init_node (g, vs) n entry")
    case (Inl e')
    with d Cons.prems(1) have "e' = e" by simp
    with Inl show ?thesis
      using init_node_Inl by blast
  next
    case (Inr st)
    obtain g1 vs1 where "st = (g1, vs1)" by (cases st)
    with Inr d Cons.prems(1) have "init_loop transitions (g1, vs1) ns = Inl e"
      by simp
    then show ?thesis
      using Cons.IH Cons.prems(2) by simp
  qed
qed

lemma StatusMap_init_Inr:
  assumes "StatusMap_init spec = Inr self"
  obtains transitions where "spec = PDict transitions"
    and "graph_inv (sm_graph self)"
    and "fst ` set transitions \<subseteq> set (nodes (sm_graph self))"
    and "\<And>n. n \<in> fst ` set transitions \<Longrightarrow>
           \<exists>entry targets. map_of transitions n = Some entry \<and> py_iter entry = Inr targets
             \<and> set targets \<subseteq> set (nodes (sm_graph self))
             \<and> {n} \<times> set targets \<subseteq> set (succ (sm_graph self))"
proof -
  from assms obtain transitions where sp: "spec = PDict transitions"
    by (cases spec) auto
  with assms obtain g0 g' vs where a: "add_nodes_from DiGraph_new (map fst transitions) = Inr g0"
    and l: "init_loop transitions (g0, None) (nodes g0) = Inr (g', vs)"
    and s: "self = \<lparr>sm_graph = g', sm_validations = vs\<rparr>"
    by (auto split: sum.splits)
  have "graph_inv DiGraph_new"
    by (simp add: graph_inv_def DiGraph_new_def)
  with add_nodes_from_Inr [OF a] have g0: "set (nodes g0) = fst ` set transitions" "graph_inv g0"
    by (auto simp: DiGraph_new_def)
  note il = init_loop_Inr [OF l]
  from il g0 s have "graph_inv (sm_graph self)"
    and "fst ` set transitions \<subseteq> set (nodes (sm_graph self))"
    by auto
  moreover have "\<And>n. n \<in> fst ` set transitions \<Longrightarrow>
           \<exists>entry targets. map_of transitions n = Some entry \<and> py_iter entry = Inr targets
             \<and> set targets \<subseteq> set (nodes (sm_graph self))
             \<and> {n} \<times> set targets \<subseteq> set (succ (sm_graph self))"
    using il g0(1) s by auto
  ultimately show thesis
    using that sp by blast
qed

lemma StatusMap_init_Inl:
  assumes "StatusMap_init spec = Inl e"
  shows "e = AttributeError \<or> e = TypeError \<or> e = ValueError"
proof (cases "\<exists>transitions. spec = PDict transitions")
  case False
  with assms show ?thesis
    by (cases spec) auto
next
  case True
  then obtain transitions where sp: "spec = PDict transitions" ..
  show ?thesis
  proof (cases "add_nodes_from DiGraph_new (map fst transitions)")
    case (Inl e')
    with sp assms have "e' = e" by simp
    with Inl add_nodes_from_Inl show ?thesis by blast
  next
    case (Inr g0)
    have "graph_inv DiGraph_new"
      by (simp add: graph_inv_def DiGraph_new_def)
    with add_nodes_from_Inr [OF Inr] have g0: "set (nodes g0) = fst ` set transitions" "graph_inv g0"
      by (auto simp: DiGraph_new_def)
    then have k: "\<forall>n\<in>set (nodes g0). hashable n \<and> n \<in> fst ` set transitions"
      by (auto simp: graph_inv_def)
    from sp assms Inr have "init_loop transitions (g0, None) (nodes g0) = Inl e"
      by (auto split: sum.splits)
    then show ?thesis
      using k by (rule init_loop_Inl)
  qed
qed

subsection \<open>Statuses, edges and the outcome of a call\<close>

lemma fst_validate_transition_caches:
  assumes "caches_ok c" and "caches_ok c'"
  shows "fst (validate_transition self from_status to_status c)
       = fst (validate_transition self from_status to_status c')"
proof (cases "has_node (sm_graph self) from_status \<and> has_node (sm_graph self) to_status
    \<and> from_status \<noteq> to_status \<and> \<not> has_successor (sm_graph self) from_status to_status")
  case True
  then obtain c1 c2 r where "validate_transition self from_status to_status c = (r, c1)"
    and "validate_transition self from_status to_status c' = (r, c2)"
    using validate_transition_slow [OF assms(1), of self from_status to_status]
      validate_transition_slow [OF assms(2), of self from_status to_status]
    by metis
  then show ?thesis by simp
next
  case False
  then show ?thesis
    by (auto simp: validate_transition_def)
qed

lemma has_node_statuses:
  assumes "graph_inv (sm_graph self)"
  shows "has_node (sm_graph self) s \<longleftrightarrow> s \<in> set (statuses self)"
  using assms by (auto simp: has_node_def statuses_def graph_inv_def)

lemma has_successor_nodes:
  assumes "graph_inv g" and "has_successor g a b"
  shows "has_node g a" and "has_node g b" and "(a, b) \<in> set (succ g)"
  using assms by (force simp: has_node_def has_successor_def graph_inv_def)+


lemma init_inv:
  assumes "StatusMap_init spec = Inr self"
  shows "graph_inv (sm_graph self)"
  using assms by (rule StatusMap_init_Inr)


subsection \<open>Errors of the cached calls\<close>

lemma lru_cache_Inl:
  assumes "lru_cache f g status cache = (Inl e, cache')"
  shows "e = TypeError \<or> f g status = Inl e"
  using assms by (auto simp: lru_cache_def split: if_splits option.splits sum.splits)

lemma nx_search_Inl:
  assumes "nx_search es g source = Inl e"
  shows "e = TypeError \<or> e = NetworkXError"
  using assms by (auto simp: nx_search_def split: if_splits)

lemma get_ancestors_Inl:
  assumes "get_ancestors g status c = (Inl e, c')"
  shows "e = TypeError \<or> e = NetworkXError"
proof -
  from assms obtain cache' where "lru_cache ancestors g status (ancestors_cache c) = (Inl e, cache')"
    by (auto simp: get_ancestors_def split: prod.splits)
  then show ?thesis
    using lru_cache_Inl nx_search_Inl unfolding ancestors_def by blast
qed

lemma get_descendants_Inl:
  assumes "get_descendants g status c = (Inl e, c')"
  shows "e = TypeError \<or> e = NetworkXError"
proof -
  from assms obtain cache' where "lru_cache descendants g status (descendants_cache c) = (Inl e, cache')"
    by (auto simp: get_descendants_def split: prod.splits)
  then show ?thesis
    using lru_cache_Inl nx_search_Inl unfolding descendants_def by blast
qed

lemma validate_transition_StatusNotFound:
  assumes "fst (validate_transition self from_status to_status cs) = Inl (StatusNotFoundError msg)"
  shows "\<not> has_node (sm_graph self) from_status \<or> \<not> has_node (sm_graph self) to_status"
proof (rule ccontr)
  assume "\<not> ?thesis"
  then have f: "has_node (sm_graph self) from_status" and t: "has_node (sm_graph self) to_status"
    by simp_all
  show False
  proof (cases "from_status = to_status \<or> has_successor (sm_graph self) from_status to_status")
    case True
    with f t assms show False
      by (simp add: validate_transition_def)
  next
    case False
    obtain ra c1 where a: "get_ancestors (sm_graph self) from_status cs = (ra, c1)"
      by (cases "get_ancestors (sm_graph self) from_status cs")
    show False
    proof (cases ra)
      case (Inl e)
      with a f t False assms have "e = StatusNotFoundError msg"
        by (simp add: validate_transition_def)
      with a Inl get_ancestors_Inl show False by blast
    next
      case (Inr anc)
      obtain rd c2 where d: "get_descendants (sm_graph self) from_status c1 = (rd, c2)"
        by (cases "get_descendants (sm_graph self) from_status c1")
      show False
      proof (cases rd)
        case (Inl e)
        with a d Inr f t False assms have "e = StatusNotFoundError msg"
          by (simp add: validate_transition_def)
        with d Inl get_descendants_Inl show False by blast
      next
        case r: (Inr desc)
        with a d Inr f t False assms show False
          by (simp add: validate_transition_def Let_def split: if_splits)
      qed
    qed
  qed
qed


subsection \<open>What a successful construction guarantees\<close>

lemma StatusMap_init_PDict:
  assumes "StatusMap_init (PDict transitions) = Inr self"
  shows "graph_inv (sm_graph self)"
    and "fst ` set transitions \<subseteq> set (nodes (sm_graph self))"
    and "n \<in> fst ` set transitions \<Longrightarrow>
           \<exists>entry targets. map_of transitions n = Some entry \<and> py_iter entry = Inr targets
             \<and> set targets \<subseteq> set (nodes (sm_graph self))
             \<and> {n} \<times> set targets \<subseteq> set (succ (sm_graph self))"
proof -
  from assms obtain g0 g' vs where a: "add_nodes_from DiGraph_new (map fst transitions) = Inr g0"
    and l: "init_loop transitions (g0, None) (nodes g0) = Inr (g', vs)"
    and s: "self = \<lparr>sm_graph = g', sm_validations = vs\<rparr>"
    by (auto split: sum.splits)
  have "graph_inv DiGraph_new"
    by (simp add: graph_inv_def DiGraph_new_def)
  with add_nodes_from_Inr [OF a] have g0: "set (nodes g0) = fst ` set transitions" "graph_inv g0"
    by (auto simp: DiGraph_new_def)
  note il = init_loop_Inr [OF l]
  from il g0 s show "graph_inv (sm_graph self)"
    and "fst ` set transitions \<subseteq> set (nodes (sm_graph self))"
    by auto
  assume "n \<in> fst ` set transitions"
  with il g0(1) s show "\<exists>entry targets. map_of transitions n = Some entry \<and> py_iter entry = Inr targets
             \<and> set targets \<subseteq> set (nodes (sm_graph self))
             \<and> {n} \<times> set targets \<subseteq> set (succ (sm_graph self))"
    by auto
qed


lemma add_transition_validations_Inr:
  assumes "add_transition_validations vs from_state items = Inr vs'"
    and "(t, a) \<in> set items"
  shows "\<exists>d. a = PDict d"
  using assms
proof (induction vs from_state items rule: add_transition_validations.induct)
  case (1 vs from_state)
  then show ?case by simp
next
  case (2 vs from_state to_state attributes rest)
  from "2.prems"(1) obtain ms where g: "py_get attributes (PStr ''validation'') (PList []) = Inr ms"
    by (auto split: sum.splits)
  then have bag: "\<exists>d. attributes = PDict d"
    by (cases attributes) auto
  show ?case
  proof (cases "(t, a) = (to_state, attributes)")
    case True
    with bag show ?thesis by simp
  next
    case False
    with "2.prems"(2) have r: "(t, a) \<in> set rest" by auto
    from "2.prems"(1) g obtain xs where i: "py_iter ms = Inr xs"
      and rec: "add_transition_validations (add_validations vs from_state to_state xs)
          from_state rest = Inr vs'"
      by (auto split: sum.splits)
    from "2.IH" [OF g i rec r] show ?thesis .
  qed
qed

lemma init_loop_bags:
  assumes "init_loop transitions (g, vs) ns = Inr st"
    and "n \<in> set ns"
    and "map_of transitions n = Some (PDict items)"
    and "(t, a) \<in> set items"
  shows "\<exists>d. a = PDict d"
  using assms
proof (induction ns arbitrary: g vs)
  case Nil
  then show ?case by simp
next
  case (Cons n' ns)
  from Cons.prems(1) obtain entry g1 vs1 where d: "dict_getitem transitions n' = Inr entry"
    and i: "init_node (g, vs) n' entry = Inr (g1, vs1)"
    and l: "init_loop transitions (g1, vs1) ns = Inr st"
    by (auto split: sum.splits)
  show ?case
  proof (cases "n = n'")
    case True
    with d Cons.prems(3) have "entry = PDict items"
      by (auto simp: dict_getitem_def split: if_splits)
    with i obtain vs' where "add_transition_validations vs n' items = Inr vs'"
      by (auto split: sum.splits)
    then show ?thesis
      using Cons.prems(4) by (rule add_transition_validations_Inr)
  next
    case False
    with Cons.prems(2) have "n \<in> set ns" by simp
    with Cons.IH [OF l] Cons.prems(3,4) show ?thesis by blast
  qed
qed

lemma StatusMap_init_bags:
  assumes "StatusMap_init (PDict transitions) = Inr self"
    and "map_of transitions n = Some (PDict items)"
    and "(t, a) \<in> set items"
  shows "\<exists>d. a = PDict d"
proof -
  from assms(1) obtain g0 st where a: "add_nodes_from DiGraph_new (map fst transitions) = Inr g0"
    and l: "init_loop transitions (g0, None) (nodes g0) = Inr st"
    by (auto split: sum.splits)
  from add_nodes_from_Inr [OF a] have "set (nodes g0) = fst ` set transitions"
    by (auto simp: DiGraph_new_def)
  moreover from assms(2) have "n \<in> fst ` set transitions"
    by (force dest: map_of_SomeD)
  ultimately have "n \<in> set (nodes g0)" by simp
  with l show ?thesis
    using assms(2,3) by (rule init_loop_bags)
qed


section \<open>The claims\<close>

text \<open>
  Claim C1. On a constructed map, \<^verbatim>\<open>validate_transition(s, s)\<close> returns for every status
  \<open>s\<close> of the map, and \<^verbatim>\<open>validate_transition(a, b)\<close> returns for every edge
  \<open>a \<rightarrow> b\<close> of the map. In both cases the caches come back unchanged: no
  reachability set was asked for.
\<close>

theorem validate_transition_shortcuts:
  assumes "StatusMap_init spec = Inr self"
  shows "(s \<in> set (statuses self) \<longrightarrow> validate_transition self s s c = (Inr (), c))
       \<and> (has_successor (sm_graph self) a b \<longrightarrow> validate_transition self a b c = (Inr (), c))"
proof -
  from assms have inv: "graph_inv (sm_graph self)"
    by (rule StatusMap_init_Inr)
  have "validate_transition self s s c = (Inr (), c)" if "s \<in> set (statuses self)"
    using that has_node_statuses [OF inv] by (simp add: validate_transition_def)
  moreover have "validate_transition self a b c = (Inr (), c)" if "has_successor (sm_graph self) a b"
    using that has_successor_nodes [OF inv that] by (simp add: validate_transition_def)
  ultimately show ?thesis by blast
qed

theorem validate_transition_shortcuts_witness:
  "StatusMap_init (PDict [(PStr ''a'', PList [PStr ''b'']), (PStr ''b'', PList [])])
     = Inr \<lparr>sm_graph = \<lparr>nodes = [PStr ''a'', PStr ''b''], succ = [(PStr ''a'', PStr ''b'')]\<rparr>,
            sm_validations = None\<rparr>
   \<and> validate_transition
        \<lparr>sm_graph = \<lparr>nodes = [PStr ''a'', PStr ''b''], succ = [(PStr ''a'', PStr ''b'')]\<rparr>,
          sm_validations = None\<rparr> (PStr ''b'') (PStr ''b'') empty_caches = (Inr (), empty_caches)
   \<and> validate_transition
        \<lparr>sm_graph = \<lparr>nodes = [PStr ''a'', PStr ''b''], succ = [(PStr ''a'', PStr ''b'')]\<rparr>,
          sm_validations = None\<rparr> (PStr ''a'') (PStr ''b'') empty_caches = (Inr (), empty_caches)"
proof -
  let ?m = "\<lparr>sm_graph = \<lparr>nodes = [PStr ''a'', PStr ''b''], succ = [(PStr ''a'', PStr ''b'')]\<rparr>,
            sm_validations = None\<rparr>"
  have h: "StatusMap_init (PDict [(PStr ''a'', PList [PStr ''b'']), (PStr ''b'', PList [])]) = Inr ?m"
    by code_simp
  have s: "PStr ''b'' \<in> set (statuses ?m)"
    and e: "has_successor (sm_graph ?m) (PStr ''a'') (PStr ''b'')"
    by (simp_all add: statuses_def has_successor_def)
  show ?thesis
    using h s e
      validate_transition_shortcuts [OF h, of "PStr ''b''" empty_caches "PStr ''a''" "PStr ''b''"]
    by simp
qed


text \<open>
  Claim C2. On a constructed map whose graph is acyclic and has the edges \<open>a \<rightarrow> b\<close>
  and \<open>b \<rightarrow> c\<close> but no edge \<open>a \<rightarrow> c\<close>, \<^verbatim>\<open>validate_transition(a, c)\<close>
  raises \<^verbatim>\<open>FutureTransitionError\<close> and \<^verbatim>\<open>validate_transition(c, a)\<close> raises
  \<^verbatim>\<open>PastTransitionError\<close>, in every reachable state of the caches.
\<close>

theorem acyclic_chain_future_past:
  assumes init: "StatusMap_init spec = Inr self"
    and rc: "reachable_caches cs"
    and acyc: "acyclic (set (succ (sm_graph self)))"
    and ab: "has_successor (sm_graph self) a b"
    and bc: "has_successor (sm_graph self) b c"
    and nac: "\<not> has_successor (sm_graph self) a c"
  shows "fst (validate_transition self a c cs) =
           Inl (FutureTransitionError
             [Lit ''from '', Fmt a, Lit '' to '', Fmt c, Lit '' should happen in the future''])
       \<and> fst (validate_transition self c a cs) =
           Inl (PastTransitionError
             [Lit ''from '', Fmt c, Lit '' to '', Fmt a, Lit '' should have happened in the past''])"
proof -
  let ?E = "set (succ (sm_graph self))"
  note inv = init_inv [OF init]
  note ok = reachable_caches_ok [OF rc]
  have na: "has_node (sm_graph self) a" and nc: "has_node (sm_graph self) c"
    and eab: "(a, b) \<in> ?E" and ebc: "(b, c) \<in> ?E"
    using has_successor_nodes [OF inv ab] has_successor_nodes [OF inv bc] by simp_all
  have ac: "(a, c) \<in> ?E\<^sup>+"
    using eab ebc by (rule trancl_into_trancl [OF r_into_trancl])
  have ca: "(c, a) \<notin> ?E\<^sup>+"
  proof
    assume "(c, a) \<in> ?E\<^sup>+"
    with ac have "(a, a) \<in> ?E\<^sup>+" by (rule trancl_trans)
    with acyc show False by (simp add: acyclic_def)
  qed
  have ne: "a \<noteq> c"
    using ac acyc by (auto simp: acyclic_def)
  have nca: "\<not> has_successor (sm_graph self) c a"
    using ca by (auto simp: has_successor_def)
  obtain c1 where "validate_transition self a c cs =
      (Inl (FutureTransitionError
         [Lit ''from '', Fmt a, Lit '' to '', Fmt c, Lit '' should happen in the future'']), c1)"
    using validate_transition_slow [OF ok na nc ne nac] ac ca by auto
  moreover obtain c2 where "validate_transition self c a cs =
      (Inl (PastTransitionError
         [Lit ''from '', Fmt c, Lit '' to '', Fmt a, Lit '' should have happened in the past'']), c2)"
    using validate_transition_slow [OF ok nc na ne [symmetric] nca] ac ca by auto
  ultimately show ?thesis by simp
qed

theorem acyclic_chain_future_past_witness:
  "StatusMap_init (PDict [(PStr ''a'', PList [PStr ''b'']), (PStr ''b'', PList [PStr ''c'']),
       (PStr ''c'', PList [])])
     = Inr \<lparr>sm_graph = \<lparr>nodes = [PStr ''a'', PStr ''b'', PStr ''c''],
              succ = [(PStr ''a'', PStr ''b''), (PStr ''b'', PStr ''c'')]\<rparr>,
            sm_validations = None\<rparr>
   \<and> fst (validate_transition
        \<lparr>sm_graph = \<lparr>nodes = [PStr ''a'', PStr ''b'', PStr ''c''],
              succ = [(PStr ''a'', PStr ''b''), (PStr ''b'', PStr ''c'')]\<rparr>,
            sm_validations = None\<rparr> (PStr ''a'') (PStr ''c'') empty_caches) =
       Inl (FutureTransitionError
         [Lit ''from '', Fmt (PStr ''a''), Lit '' to '', Fmt (PStr ''c''),
          Lit '' should happen in the future''])
   \<and> fst (validate_transition
        \<lparr>sm_graph = \<lparr>nodes = [PStr ''a'', PStr ''b'', PStr ''c''],
              succ = [(PStr ''a'', PStr ''b''), (PStr ''b'', PStr ''c'')]\<rparr>,
            sm_validations = None\<rparr> (PStr ''c'') (PStr ''a'') empty_caches) =
       Inl (PastTransitionError
         [Lit ''from '', Fmt (PStr ''c''), Lit '' to '', Fmt (PStr ''a''),
          Lit '' should have happened in the past''])"
proof -
  let ?m = "\<lparr>sm_graph = \<lparr>nodes = [PStr ''a'', PStr ''b'', PStr ''c''],
              succ = [(PStr ''a'', PStr ''b''), (PStr ''b'', PStr ''c'')]\<rparr>,
            sm_validations = None\<rparr>"
  have h1: "StatusMap_init (PDict [(PStr ''a'', PList [PStr ''b'']), (PStr ''b'', PList [PStr ''c'']),
       (PStr ''c'', PList [])]) = Inr ?m"
    by code_simp
  have h2: "acyclic (set (succ (sm_graph ?m)))"
    by code_simp
  have h3: "has_successor (sm_graph ?m) (PStr ''a'') (PStr ''b'')"
    and h4: "has_successor (sm_graph ?m) (PStr ''b'') (PStr ''c'')"
    and h5: "\<not> has_successor (sm_graph ?m) (PStr ''a'') (PStr ''c'')"
    by (simp_all add: has_successor_def)
  show ?thesis
    using h1 acyclic_chain_future_past [OF h1 reachable_caches.start h2 h3 h4 h5] by simp
qed

text \<open>
  Claim C3. For two distinct statuses of a constructed map with no edge from the first to
  the second, if \<^verbatim>\<open>to_status\<close> is in both the ancestors and the descendants of
  \<^verbatim>\<open>from_status\<close>, then \<^verbatim>\<open>validate_transition\<close> raises
  \<^verbatim>\<open>AmbiguousTransitionError\<close>; and then the graph has a closed directed walk through
  both statuses (each reaches the other along one or more edges), so it is not acyclic.
\<close>

theorem both_directions_ambiguous:
  assumes init: "StatusMap_init spec = Inr self"
    and rc: "reachable_caches cs"
    and f: "from_status \<in> set (statuses self)"
    and t: "to_status \<in> set (statuses self)"
    and ne: "from_status \<noteq> to_status"
    and ns: "\<not> has_successor (sm_graph self) from_status to_status"
    and anc: "ancestors (sm_graph self) from_status = Inr anc"
    and desc: "descendants (sm_graph self) from_status = Inr desc"
    and ta: "to_status \<in> anc"
    and td: "to_status \<in> desc"
  shows "fst (validate_transition self from_status to_status cs) =
           Inl (AmbiguousTransitionError
             [Lit ''from '', Fmt from_status, Lit '' to '', Fmt to_status,
              Lit '' is both past and future''])
       \<and> (from_status, to_status) \<in> (set (succ (sm_graph self)))\<^sup>+
       \<and> (to_status, from_status) \<in> (set (succ (sm_graph self)))\<^sup>+
       \<and> \<not> acyclic (set (succ (sm_graph self)))"
proof -
  let ?E = "set (succ (sm_graph self))"
  note inv = init_inv [OF init]
  note ok = reachable_caches_ok [OF rc]
  have nf: "has_node (sm_graph self) from_status" and nt: "has_node (sm_graph self) to_status"
    using f t has_node_statuses [OF inv] by simp_all
  from anc ta ancestors_node [OF nf] have tf: "(to_status, from_status) \<in> ?E\<^sup>+"
    by auto
  from desc td descendants_node [OF nf] have ft: "(from_status, to_status) \<in> ?E\<^sup>+"
    by auto
  from ft tf have "(from_status, from_status) \<in> ?E\<^sup>+"
    by (rule trancl_trans)
  then have cyc: "\<not> acyclic ?E"
    by (auto simp: acyclic_def)
  obtain c' where "validate_transition self from_status to_status cs =
      (Inl (AmbiguousTransitionError
         [Lit ''from '', Fmt from_status, Lit '' to '', Fmt to_status,
          Lit '' is both past and future'']), c')"
    using validate_transition_slow [OF ok nf nt ne ns] ft tf by auto
  with ft tf cyc show ?thesis by simp
qed

theorem both_directions_ambiguous_witness:
  "StatusMap_init (PDict [(PStr ''p'', PList [PStr ''q'']), (PStr ''q'', PList [PStr ''r'']),
       (PStr ''r'', PList [PStr ''p''])])
     = Inr \<lparr>sm_graph = \<lparr>nodes = [PStr ''p'', PStr ''q'', PStr ''r''],
              succ = [(PStr ''p'', PStr ''q''), (PStr ''q'', PStr ''r''), (PStr ''r'', PStr ''p'')]\<rparr>,
            sm_validations = None\<rparr>
   \<and> fst (validate_transition
        \<lparr>sm_graph = \<lparr>nodes = [PStr ''p'', PStr ''q'', PStr ''r''],
              succ = [(PStr ''p'', PStr ''q''), (PStr ''q'', PStr ''r''), (PStr ''r'', PStr ''p'')]\<rparr>,
            sm_validations = None\<rparr> (PStr ''p'') (PStr ''r'') empty_caches) =
       Inl (AmbiguousTransitionError
         [Lit ''from '', Fmt (PStr ''p''), Lit '' to '', Fmt (PStr ''r''),
          Lit '' is both past and future''])"
proof -
  let ?g = "\<lparr>nodes = [PStr ''p'', PStr ''q'', PStr ''r''],
              succ = [(PStr ''p'', PStr ''q''), (PStr ''q'', PStr ''r''), (PStr ''r'', PStr ''p'')]\<rparr>"
  let ?m = "\<lparr>sm_graph = ?g, sm_validations = None\<rparr>"
  have h1: "StatusMap_init (PDict [(PStr ''p'', PList [PStr ''q'']), (PStr ''q'', PList [PStr ''r'']),
       (PStr ''r'', PList [PStr ''p''])]) = Inr ?m"
    by code_simp
  have h2: "PStr ''p'' \<in> set (statuses ?m)" and h3: "PStr ''r'' \<in> set (statuses ?m)"
    and h4: "PStr ''p'' \<noteq> PStr ''r''"
    and h5: "\<not> has_successor (sm_graph ?m) (PStr ''p'') (PStr ''r'')"
    by (simp_all add: statuses_def has_successor_def)
  have h6: "ancestors (sm_graph ?m) (PStr ''p'') = Inr {PStr ''r'', PStr ''q''}"
    by code_simp
  have h7: "descendants (sm_graph ?m) (PStr ''p'') = Inr {PStr ''q'', PStr ''r''}"
    by code_simp
  have h8: "PStr ''r'' \<in> {PStr ''r'', PStr ''q''}" and h9: "PStr ''r'' \<in> {PStr ''q'', PStr ''r''}"
    by simp_all
  show ?thesis
    using h1 both_directions_ambiguous [OF h1 reachable_caches.start h2 h3 h4 h5 h6 h7 h8 h9]
    by simp
qed


text \<open>
  Claim C4. For two distinct statuses \<open>x\<close>, \<open>y\<close> of a constructed map with no edge
  \<open>x \<rightarrow> y\<close> and no directed path between them in either direction,
  \<^verbatim>\<open>validate_transition(x, y)\<close> raises \<^verbatim>\<open>TransitionNotFoundError\<close>.
\<close>

theorem unrelated_not_found:
  assumes init: "StatusMap_init spec = Inr self"
    and rc: "reachable_caches cs"
    and x: "x \<in> set (statuses self)"
    and y: "y \<in> set (statuses self)"
    and ne: "x \<noteq> y"
    and ns: "\<not> has_successor (sm_graph self) x y"
    and nxy: "(x, y) \<notin> (set (succ (sm_graph self)))\<^sup>+"
    and nyx: "(y, x) \<notin> (set (succ (sm_graph self)))\<^sup>+"
  shows "fst (validate_transition self x y cs) =
           Inl (TransitionNotFoundError
             [Lit ''from '', Fmt x, Lit '' to '', Fmt y, Lit '' not found''])"
proof -
  note inv = init_inv [OF init]
  note ok = reachable_caches_ok [OF rc]
  have nx: "has_node (sm_graph self) x" and ny: "has_node (sm_graph self) y"
    using x y has_node_statuses [OF inv] by simp_all
  obtain c' where "validate_transition self x y cs =
      (Inl (TransitionNotFoundError
         [Lit ''from '', Fmt x, Lit '' to '', Fmt y, Lit '' not found'']), c')"
    using validate_transition_slow [OF ok nx ny ne ns] nxy nyx by auto
  then show ?thesis by simp
qed

theorem unrelated_not_found_witness:
  "StatusMap_init (PDict [(PStr ''x'', PList []), (PStr ''y'', PList [])])
     = Inr \<lparr>sm_graph = \<lparr>nodes = [PStr ''x'', PStr ''y''], succ = []\<rparr>, sm_validations = None\<rparr>
   \<and> fst (validate_transition
        \<lparr>sm_graph = \<lparr>nodes = [PStr ''x'', PStr ''y''], succ = []\<rparr>, sm_validations = None\<rparr>
        (PStr ''x'') (PStr ''y'') empty_caches) =
       Inl (TransitionNotFoundError
         [Lit ''from '', Fmt (PStr ''x''), Lit '' to '', Fmt (PStr ''y''), Lit '' not found''])"
proof -
  let ?m = "\<lparr>sm_graph = \<lparr>nodes = [PStr ''x'', PStr ''y''], succ = []\<rparr>, sm_validations = None\<rparr>"
  have h1: "StatusMap_init (PDict [(PStr ''x'', PList []), (PStr ''y'', PList [])]) = Inr ?m"
    by code_simp
  have h2: "PStr ''x'' \<in> set (statuses ?m)" and h3: "PStr ''y'' \<in> set (statuses ?m)"
    and h4: "PStr ''x'' \<noteq> PStr ''y''"
    and h5: "\<not> has_successor (sm_graph ?m) (PStr ''x'') (PStr ''y'')"
    and h6: "(PStr ''x'', PStr ''y'') \<notin> (set (succ (sm_graph ?m)))\<^sup>+"
    and h7: "(PStr ''y'', PStr ''x'') \<notin> (set (succ (sm_graph ?m)))\<^sup>+"
    by (simp_all add: statuses_def has_successor_def)
  show ?thesis
    using h1 unrelated_not_found [OF h1 reachable_caches.start h2 h3 h4 h5 h6 h7] by simp
qed

text \<open>
  Claim C5. On a constructed map, when \<^verbatim>\<open>from_status\<close> is not a status of the map,
  \<^verbatim>\<open>validate_transition\<close> raises \<^verbatim>\<open>StatusNotFoundError\<close> with the message
  \<^verbatim>\<open>from_status ... not found\<close>, whatever \<^verbatim>\<open>to_status\<close> is (so also when both
  are absent); when only \<^verbatim>\<open>to_status\<close> is absent, the message is
  \<^verbatim>\<open>to_status ... not found\<close>. In both cases the caches come back unchanged: the
  check precedes all reachability work.
\<close>

theorem absent_status_not_found:
  assumes init: "StatusMap_init spec = Inr self"
  shows "(a \<notin> set (statuses self) \<longrightarrow>
            validate_transition self a b cs =
              (Inl (StatusNotFoundError [Lit ''from_status '', Fmt a, Lit '' not found'']), cs))
       \<and> (a \<in> set (statuses self) \<and> b \<notin> set (statuses self) \<longrightarrow>
            validate_transition self a b cs =
              (Inl (StatusNotFoundError [Lit ''to_status '', Fmt b, Lit '' not found'']), cs))"
  using has_node_statuses [OF init_inv [OF init]]
  by (simp add: validate_transition_def)

theorem absent_status_not_found_witness:
  "StatusMap_init (PDict [(PStr ''a'', PList [PStr ''b'']), (PStr ''b'', PList [])])
     = Inr \<lparr>sm_graph = \<lparr>nodes = [PStr ''a'', PStr ''b''], succ = [(PStr ''a'', PStr ''b'')]\<rparr>,
            sm_validations = None\<rparr>
   \<and> validate_transition
        \<lparr>sm_graph = \<lparr>nodes = [PStr ''a'', PStr ''b''], succ = [(PStr ''a'', PStr ''b'')]\<rparr>,
          sm_validations = None\<rparr> (PStr ''x'') (PStr ''y'') empty_caches =
       (Inl (StatusNotFoundError [Lit ''from_status '', Fmt (PStr ''x''), Lit '' not found'']),
        empty_caches)
   \<and> validate_transition
        \<lparr>sm_graph = \<lparr>nodes = [PStr ''a'', PStr ''b''], succ = [(PStr ''a'', PStr ''b'')]\<rparr>,
          sm_validations = None\<rparr> (PStr ''a'') (PStr ''y'') empty_caches =
       (Inl (StatusNotFoundError [Lit ''to_status '', Fmt (PStr ''y''), Lit '' not found'']),
        empty_caches)"
proof -
  let ?m = "\<lparr>sm_graph = \<lparr>nodes = [PStr ''a'', PStr ''b''], succ = [(PStr ''a'', PStr ''b'')]\<rparr>,
            sm_validations = None\<rparr>"
  have h: "StatusMap_init (PDict [(PStr ''a'', PList [PStr ''b'']), (PStr ''b'', PList [])]) = Inr ?m"
    by code_simp
  have s: "PStr ''x'' \<notin> set (statuses ?m)" "PStr ''a'' \<in> set (statuses ?m)"
    "PStr ''y'' \<notin> set (statuses ?m)"
    by (simp_all add: statuses_def)
  show ?thesis
    using h s
      absent_status_not_found [OF h, of "PStr ''x''" "PStr ''y''" empty_caches]
      absent_status_not_found [OF h, of "PStr ''a''" "PStr ''y''" empty_caches]
    by simp
qed


text \<open>
  Claim C6, at two inputs. For the specification
  \<^verbatim>\<open>{"a": {"b": {"validation": ["v1", "v2"]}}}\<close>, \<^verbatim>\<open>get_validations("a", "b")\<close>
  returns the single hook \<^verbatim>\<open>"v2"\<close>: \<^verbatim>\<open>_add_validation\<close> assigns each hook over
  the previous one, so the declared list \<^verbatim>\<open>["v1", "v2"]\<close> is not what comes back.
  For the specification \<^verbatim>\<open>{"a": ["b"]}\<close>, which declares no validation,
  \<^verbatim>\<open>_validations\<close> is never created and \<^verbatim>\<open>get_validations("a", "b")\<close> raises
  \<^verbatim>\<open>AttributeError\<close> instead of returning the empty list.
\<close>

theorem get_validations_keeps_last_hook_only:
  "StatusMap_init (PDict [(PStr ''a'', PDict [(PStr ''b'',
        PDict [(PStr ''validation'', PList [PStr ''v1'', PStr ''v2''])])])])
     = Inr \<lparr>sm_graph = \<lparr>nodes = [PStr ''a'', PStr ''b''], succ = [(PStr ''a'', PStr ''b'')]\<rparr>,
            sm_validations = Some [(PStr ''a'', [(PStr ''b'', PStr ''v2'')])]\<rparr>
   \<and> get_validations
        \<lparr>sm_graph = \<lparr>nodes = [PStr ''a'', PStr ''b''], succ = [(PStr ''a'', PStr ''b'')]\<rparr>,
          sm_validations = Some [(PStr ''a'', [(PStr ''b'', PStr ''v2'')])]\<rparr>
        (PStr ''a'') (PStr ''b'') = Inr (PStr ''v2'')
   \<and> StatusMap_init (PDict [(PStr ''a'', PList [PStr ''b''])])
     = Inr \<lparr>sm_graph = \<lparr>nodes = [PStr ''a'', PStr ''b''], succ = [(PStr ''a'', PStr ''b'')]\<rparr>,
            sm_validations = None\<rparr>
   \<and> get_validations
        \<lparr>sm_graph = \<lparr>nodes = [PStr ''a'', PStr ''b''], succ = [(PStr ''a'', PStr ''b'')]\<rparr>,
          sm_validations = None\<rparr> (PStr ''a'') (PStr ''b'') = Inl AttributeError"
  by (simp add: DiGraph_new_def register_node_def add_edge_def dict_getitem_def
      add_validation_def get_validations_def)

text \<open>
  Claim C7 fails as stated: construction from the list \<^verbatim>\<open>["a"]\<close>, which is not a
  mapping, raises \<^verbatim>\<open>AttributeError\<close>, not \<^verbatim>\<open>SpecificationError\<close>; so does a
  metadata-style entry whose attribute bag is the integer 3; and \<^verbatim>\<open>None\<close> as an
  edge target of a metadata-style entry raises the \<^verbatim>\<open>ValueError\<close> of networkx.
\<close>

theorem construction_not_SpecificationError_counterexample:
  "StatusMap_init (PList [PStr ''a'']) = Inl AttributeError
   \<and> StatusMap_init (PList [PStr ''a'']) \<noteq> Inl SpecificationError
   \<and> StatusMap_init (PDict [(PStr ''a'', PDict [(PStr ''b'', PInt 3)])]) = Inl AttributeError
   \<and> StatusMap_init (PDict [(PStr ''a'', PDict [(PNone, PDict [])])]) = Inl ValueError"
  by (simp add: DiGraph_new_def register_node_def add_edge_def dict_getitem_def)


text \<open>
  Claim C7, amended. Construction never raises \<^verbatim>\<open>SpecificationError\<close>. A
  specification that is not a dict fails with \<^verbatim>\<open>AttributeError\<close>; a specification
  with a metadata-style entry whose attribute bag is not a dict fails; and every failure
  of construction is an \<^verbatim>\<open>AttributeError\<close>, a \<^verbatim>\<open>TypeError\<close> or a
  \<^verbatim>\<open>ValueError\<close>.
\<close>

theorem construction_failure_kinds:
  "StatusMap_init spec \<noteq> Inl SpecificationError
   \<and> ((\<forall>transitions. spec \<noteq> PDict transitions) \<longrightarrow> StatusMap_init spec = Inl AttributeError)
   \<and> (spec = PDict transitions \<and> map_of transitions n = Some (PDict items) \<and> (t, a) \<in> set items
        \<and> (\<forall>d. a \<noteq> PDict d) \<longrightarrow> (\<exists>e. StatusMap_init spec = Inl e))
   \<and> (StatusMap_init spec = Inl e \<longrightarrow> e = AttributeError \<or> e = TypeError \<or> e = ValueError)"
proof -
  have kinds: "e = AttributeError \<or> e = TypeError \<or> e = ValueError"
    if "StatusMap_init spec = Inl e" for e
    using that by (rule StatusMap_init_Inl)
  then have 1: "StatusMap_init spec \<noteq> Inl SpecificationError"
    by blast
  have 2: "StatusMap_init spec = Inl AttributeError" if "\<forall>transitions. spec \<noteq> PDict transitions"
    using that by (cases spec) simp_all
  have 3: "\<exists>e. StatusMap_init spec = Inl e"
    if "spec = PDict transitions \<and> map_of transitions n = Some (PDict items) \<and> (t, a) \<in> set items
        \<and> (\<forall>d. a \<noteq> PDict d)"
  proof (cases "StatusMap_init spec")
    case (Inl e)
    then show ?thesis by blast
  next
    case (Inr self)
    with that StatusMap_init_bags [of transitions self n items t a] show ?thesis
      by blast
  qed
  from 1 2 3 kinds show ?thesis
    by blast
qed

theorem construction_failure_kinds_witness:
  "(\<forall>transitions. PInt 3 \<noteq> PDict transitions)
   \<and> StatusMap_init (PInt 3) = Inl AttributeError
   \<and> map_of [(PStr ''a'', PDict [(PStr ''b'', PStr ''x'')])] (PStr ''a'')
        = Some (PDict [(PStr ''b'', PStr ''x'')])
   \<and> (\<exists>e. StatusMap_init (PDict [(PStr ''a'', PDict [(PStr ''b'', PStr ''x'')])]) = Inl e)"
proof -
  have h1: "\<forall>transitions. PInt 3 \<noteq> PDict transitions"
    by simp
  have h2: "PDict [(PStr ''a'', PDict [(PStr ''b'', PStr ''x'')])]
        = PDict [(PStr ''a'', PDict [(PStr ''b'', PStr ''x'')])]
      \<and> map_of [(PStr ''a'', PDict [(PStr ''b'', PStr ''x'')])] (PStr ''a'')
          = Some (PDict [(PStr ''b'', PStr ''x'')])
      \<and> (PStr ''b'', PStr ''x'') \<in> set [(PStr ''b'', PStr ''x'')]
      \<and> (\<forall>d. PStr ''x'' \<noteq> PDict d)"
    by simp
  from h1 construction_failure_kinds [where spec = "PInt 3"]
  have 1: "StatusMap_init (PInt 3) = Inl AttributeError"
    by blast
  from h2 construction_failure_kinds [where spec = "PDict [(PStr ''a'', PDict [(PStr ''b'', PStr ''x'')])]"
      and transitions = "[(PStr ''a'', PDict [(PStr ''b'', PStr ''x'')])]" and n = "PStr ''a''"
      and items = "[(PStr ''b'', PStr ''x'')]" and t = "PStr ''b''" and a = "PStr ''x''"]
  have 2: "\<exists>e. StatusMap_init (PDict [(PStr ''a'', PDict [(PStr ''b'', PStr ''x'')])]) = Inl e"
    by blast
  from h1 h2 1 2 show ?thesis
    by simp
qed


text \<open>
  Claim C8. After a successful construction from a dict, every key of the specification
  is a status of the map (whether or not it declares a transition), and every declared
  target has its edge: for a metadata mapping, an edge to each of its keys; for any
  other entry, an edge to each element it yields.
\<close>

theorem construction_nodes_and_edges:
  assumes init: "StatusMap_init (PDict transitions) = Inr self"
  shows "(k \<in> fst ` set transitions \<longrightarrow> k \<in> set (statuses self) \<and> has_node (sm_graph self) k)
       \<and> (map_of transitions k = Some (PDict items) \<and> t \<in> fst ` set items \<longrightarrow>
            has_successor (sm_graph self) k t)
       \<and> (map_of transitions k = Some entry \<and> (\<forall>d. entry \<noteq> PDict d)
            \<and> py_iter entry = Inr targets \<and> t \<in> set targets \<longrightarrow>
            has_successor (sm_graph self) k t)"
proof -
  note inv = StatusMap_init_PDict(1) [OF init]
  note keys = StatusMap_init_PDict(2) [OF init]
  note decl = StatusMap_init_PDict(3) [OF init]
  have edge: "has_successor (sm_graph self) k t"
    if "map_of transitions k = Some entry" and "py_iter entry = Inr targets" and "t \<in> set targets"
    for entry targets
  proof -
    from that(1) have "k \<in> fst ` set transitions"
      by (force dest: map_of_SomeD)
    with decl [of k] keys that show ?thesis
      by (auto simp: has_successor_def)
  qed
  have "k \<in> set (statuses self) \<and> has_node (sm_graph self) k" if "k \<in> fst ` set transitions"
    using that keys has_node_statuses [OF inv] by (auto simp: statuses_def)
  moreover have "has_successor (sm_graph self) k t"
    if "map_of transitions k = Some (PDict items) \<and> t \<in> fst ` set items"
    using that edge [of "PDict items" "map fst items"] by simp
  moreover have "has_successor (sm_graph self) k t"
    if "map_of transitions k = Some entry \<and> (\<forall>d. entry \<noteq> PDict d)
            \<and> py_iter entry = Inr targets \<and> t \<in> set targets"
    using that edge by blast
  ultimately show ?thesis by blast
qed


theorem construction_nodes_and_edges_witness:
  "StatusMap_init (PDict [(PStr ''a'', PList [PStr ''b'']),
       (PStr ''b'', PDict [(PStr ''c'', PDict [])]), (PStr ''c'', PList [])])
     = Inr \<lparr>sm_graph = \<lparr>nodes = [PStr ''a'', PStr ''b'', PStr ''c''],
              succ = [(PStr ''a'', PStr ''b''), (PStr ''b'', PStr ''c'')]\<rparr>,
            sm_validations = None\<rparr>
   \<and> PStr ''c'' \<in> set (statuses \<lparr>sm_graph = \<lparr>nodes = [PStr ''a'', PStr ''b'', PStr ''c''],
              succ = [(PStr ''a'', PStr ''b''), (PStr ''b'', PStr ''c'')]\<rparr>,
            sm_validations = None\<rparr>)
   \<and> has_successor \<lparr>nodes = [PStr ''a'', PStr ''b'', PStr ''c''],
              succ = [(PStr ''a'', PStr ''b''), (PStr ''b'', PStr ''c'')]\<rparr> (PStr ''b'') (PStr ''c'')
   \<and> has_successor \<lparr>nodes = [PStr ''a'', PStr ''b'', PStr ''c''],
              succ = [(PStr ''a'', PStr ''b''), (PStr ''b'', PStr ''c'')]\<rparr> (PStr ''a'') (PStr ''b'')"
proof -
  let ?tr = "[(PStr ''a'', PList [PStr ''b'']),
       (PStr ''b'', PDict [(PStr ''c'', PDict [])]), (PStr ''c'', PList [])]"
  let ?m = "\<lparr>sm_graph = \<lparr>nodes = [PStr ''a'', PStr ''b'', PStr ''c''],
              succ = [(PStr ''a'', PStr ''b''), (PStr ''b'', PStr ''c'')]\<rparr>,
            sm_validations = None\<rparr>"
  have h: "StatusMap_init (PDict ?tr) = Inr ?m"
    by code_simp
  have k: "PStr ''c'' \<in> fst ` set ?tr"
    by simp
  have d: "map_of ?tr (PStr ''b'') = Some (PDict [(PStr ''c'', PDict [])])
      \<and> PStr ''c'' \<in> fst ` set [(PStr ''c'', PDict [])]"
    by simp
  have p: "map_of ?tr (PStr ''a'') = Some (PList [PStr ''b'']) \<and> (\<forall>d. PList [PStr ''b''] \<noteq> PDict d)
      \<and> py_iter (PList [PStr ''b'']) = Inr [PStr ''b''] \<and> PStr ''b'' \<in> set [PStr ''b'']"
    by simp
  from k construction_nodes_and_edges [OF h, where k = "PStr ''c''"]
  have 1: "PStr ''c'' \<in> set (statuses ?m)"
    by blast
  from d construction_nodes_and_edges [OF h, where k = "PStr ''b''" and t = "PStr ''c''"
      and items = "[(PStr ''c'', PDict [])]"]
  have 2: "has_successor (sm_graph ?m) (PStr ''b'') (PStr ''c'')"
    by blast
  from p construction_nodes_and_edges [OF h, where k = "PStr ''a''" and t = "PStr ''b''"
      and entry = "PList [PStr ''b'']" and targets = "[PStr ''b'']"]
  have 3: "has_successor (sm_graph ?m) (PStr ''a'') (PStr ''b'')"
    by blast
  from h 1 2 3 show ?thesis
    by simp
qed


text \<open>
  Claim C9. In every state of the caches that calls of \<^verbatim>\<open>get_ancestors\<close>,
  \<^verbatim>\<open>get_descendants\<close> and \<^verbatim>\<open>validate_transition\<close> can reach from the empty
  caches, \<^verbatim>\<open>validate_transition\<close> has the outcome it has on the empty caches; a
  repeated call, on the caches the first call left, has the outcome of the first; and so
  has a call in any other reachable state. The caches are the only state the call
  returns besides its outcome.
\<close>

theorem validate_transition_cache_insensitive:
  assumes rc: "reachable_caches cs"
  shows "fst (validate_transition self from_status to_status cs)
           = fst (validate_transition self from_status to_status empty_caches)
       \<and> fst (validate_transition self from_status to_status
                (snd (validate_transition self from_status to_status cs)))
           = fst (validate_transition self from_status to_status cs)
       \<and> (\<forall>cs'. reachable_caches cs' \<longrightarrow>
            fst (validate_transition self from_status to_status cs')
              = fst (validate_transition self from_status to_status cs))"
proof -
  note ok = reachable_caches_ok [OF rc]
  have e: "caches_ok empty_caches"
    using reachable_caches_ok [OF reachable_caches.start] .
  have a: "caches_ok (snd (validate_transition self from_status to_status cs))"
    using ok by (rule validate_transition_caches_ok)
  have "fst (validate_transition self from_status to_status cs)
           = fst (validate_transition self from_status to_status empty_caches)"
    using ok e by (rule fst_validate_transition_caches)
  moreover have "fst (validate_transition self from_status to_status
                (snd (validate_transition self from_status to_status cs)))
           = fst (validate_transition self from_status to_status cs)"
    using a ok by (rule fst_validate_transition_caches)
  moreover have "fst (validate_transition self from_status to_status cs')
              = fst (validate_transition self from_status to_status cs)"
    if "reachable_caches cs'" for cs'
    using reachable_caches_ok [OF that] ok by (rule fst_validate_transition_caches)
  ultimately show ?thesis by blast
qed


theorem validate_transition_cache_insensitive_witness:
  "reachable_caches (snd (validate_transition
        \<lparr>sm_graph = \<lparr>nodes = [PStr ''a'', PStr ''b'', PStr ''c''],
              succ = [(PStr ''a'', PStr ''b''), (PStr ''b'', PStr ''c'')]\<rparr>,
            sm_validations = None\<rparr> (PStr ''a'') (PStr ''c'') empty_caches))
   \<and> descendants_cache (snd (validate_transition
        \<lparr>sm_graph = \<lparr>nodes = [PStr ''a'', PStr ''b'', PStr ''c''],
              succ = [(PStr ''a'', PStr ''b''), (PStr ''b'', PStr ''c'')]\<rparr>,
            sm_validations = None\<rparr> (PStr ''a'') (PStr ''c'') empty_caches)) \<noteq> []
   \<and> fst (validate_transition
        \<lparr>sm_graph = \<lparr>nodes = [PStr ''a'', PStr ''b'', PStr ''c''],
              succ = [(PStr ''a'', PStr ''b''), (PStr ''b'', PStr ''c'')]\<rparr>,
            sm_validations = None\<rparr> (PStr ''a'') (PStr ''c'')
          (snd (validate_transition
            \<lparr>sm_graph = \<lparr>nodes = [PStr ''a'', PStr ''b'', PStr ''c''],
                  succ = [(PStr ''a'', PStr ''b''), (PStr ''b'', PStr ''c'')]\<rparr>,
                sm_validations = None\<rparr> (PStr ''a'') (PStr ''c'') empty_caches)))
     = fst (validate_transition
        \<lparr>sm_graph = \<lparr>nodes = [PStr ''a'', PStr ''b'', PStr ''c''],
              succ = [(PStr ''a'', PStr ''b''), (PStr ''b'', PStr ''c'')]\<rparr>,
            sm_validations = None\<rparr> (PStr ''a'') (PStr ''c'') empty_caches)"
proof -
  let ?m = "\<lparr>sm_graph = \<lparr>nodes = [PStr ''a'', PStr ''b'', PStr ''c''],
              succ = [(PStr ''a'', PStr ''b''), (PStr ''b'', PStr ''c'')]\<rparr>,
            sm_validations = None\<rparr>"
  let ?cs = "snd (validate_transition ?m (PStr ''a'') (PStr ''c'') empty_caches)"
  have r: "reachable_caches ?cs"
    using reachable_caches.start by (rule reachable_caches.after_validate_transition)
  have p: "descendants_cache ?cs \<noteq> []"
    by (simp add: validate_transition_def has_node_def has_successor_def get_ancestors_def
        get_descendants_def lru_cache_def empty_caches_def ancestors_def descendants_def
        nx_search_def maxsize_def Let_def)
  show ?thesis
    using r p validate_transition_cache_insensitive [OF r, of ?m "PStr ''a''" "PStr ''c''"]
    by simp
qed

text \<open>
  Claim C10. A declared target \<open>t\<close> that is not a key of the specification is a status
  of the constructed map: it is in \<^verbatim>\<open>statuses\<close> and in the iteration, the length
  counts it (the length is the number of distinct statuses), \<^verbatim>\<open>t in map\<close> is True,
  and \<^verbatim>\<open>validate_transition\<close> between \<open>t\<close> and any status of the map, in either
  order and in any state of the caches, does not raise \<^verbatim>\<open>StatusNotFoundError\<close>.
\<close>

theorem target_auto_registered:
  assumes init: "StatusMap_init (PDict transitions) = Inr self"
    and entry: "map_of transitions k = Some entry"
    and targets: "py_iter entry = Inr targets"
    and t: "t \<in> set targets"
    and nokey: "t \<notin> fst ` set transitions"
  shows "t \<in> set (statuses self) \<and> t \<in> set (StatusMap_iter self)
       \<and> StatusMap_len self = card (set (statuses self))
       \<and> StatusMap_contains self t = Inr True
       \<and> (\<forall>u cs msg. u \<in> set (statuses self) \<longrightarrow>
            fst (validate_transition self t u cs) \<noteq> Inl (StatusNotFoundError msg)
            \<and> fst (validate_transition self u t cs) \<noteq> Inl (StatusNotFoundError msg))"
proof -
  note inv = StatusMap_init_PDict(1) [OF init]
  note decl = StatusMap_init_PDict(3) [OF init]
  from entry have "k \<in> fst ` set transitions"
    by (force dest: map_of_SomeD)
  with decl [of k] entry targets t have node: "t \<in> set (nodes (sm_graph self))"
    by auto
  then have st: "t \<in> set (statuses self)" and it: "t \<in> set (StatusMap_iter self)"
    by (simp_all add: statuses_def StatusMap_iter_def)
  from inv have "distinct (nodes (sm_graph self))"
    by (simp add: graph_inv_def)
  then have len: "StatusMap_len self = card (set (statuses self))"
    by (simp add: StatusMap_len_def number_of_nodes_def statuses_def distinct_card)
  from node inv have "hashable t"
    by (simp add: graph_inv_def)
  with node have con: "StatusMap_contains self t = Inr True"
    by (simp add: StatusMap_contains_def StatusMap_getitem_def)
  have nt: "has_node (sm_graph self) t"
    using st has_node_statuses [OF inv] by simp
  have "fst (validate_transition self t u cs) \<noteq> Inl (StatusNotFoundError msg)
      \<and> fst (validate_transition self u t cs) \<noteq> Inl (StatusNotFoundError msg)"
    if "u \<in> set (statuses self)" for u cs msg
  proof -
    from that have "has_node (sm_graph self) u"
      using has_node_statuses [OF inv] by simp
    with nt show ?thesis
      using validate_transition_StatusNotFound by blast
  qed
  with st it len con show ?thesis by blast
qed

theorem target_auto_registered_witness:
  "StatusMap_init (PDict [(PStr ''a'', PList [PStr ''b''])])
     = Inr \<lparr>sm_graph = \<lparr>nodes = [PStr ''a'', PStr ''b''], succ = [(PStr ''a'', PStr ''b'')]\<rparr>,
            sm_validations = None\<rparr>
   \<and> PStr ''b'' \<notin> fst ` set [(PStr ''a'', PList [PStr ''b''])]
   \<and> PStr ''b'' \<in> set (statuses
        \<lparr>sm_graph = \<lparr>nodes = [PStr ''a'', PStr ''b''], succ = [(PStr ''a'', PStr ''b'')]\<rparr>,
          sm_validations = None\<rparr>)
   \<and> StatusMap_len
        \<lparr>sm_graph = \<lparr>nodes = [PStr ''a'', PStr ''b''], succ = [(PStr ''a'', PStr ''b'')]\<rparr>,
          sm_validations = None\<rparr> = 2
   \<and> StatusMap_contains
        \<lparr>sm_graph = \<lparr>nodes = [PStr ''a'', PStr ''b''], succ = [(PStr ''a'', PStr ''b'')]\<rparr>,
          sm_validations = None\<rparr> (PStr ''b'') = Inr True
   \<and> fst (validate_transition
        \<lparr>sm_graph = \<lparr>nodes = [PStr ''a'', PStr ''b''], succ = [(PStr ''a'', PStr ''b'')]\<rparr>,
          sm_validations = None\<rparr> (PStr ''b'') (PStr ''a'') empty_caches)
       \<noteq> Inl (StatusNotFoundError [Lit ''from_status '', Fmt (PStr ''b''), Lit '' not found''])"
proof -
  let ?tr = "[(PStr ''a'', PList [PStr ''b''])]"
  let ?m = "\<lparr>sm_graph = \<lparr>nodes = [PStr ''a'', PStr ''b''], succ = [(PStr ''a'', PStr ''b'')]\<rparr>,
            sm_validations = None\<rparr>"
  have h1: "StatusMap_init (PDict ?tr) = Inr ?m"
    by code_simp
  have h2: "map_of ?tr (PStr ''a'') = Some (PList [PStr ''b''])"
    and h3: "py_iter (PList [PStr ''b'']) = Inr [PStr ''b'']"
    and h4: "PStr ''b'' \<in> set [PStr ''b'']"
    and h5: "PStr ''b'' \<notin> fst ` set ?tr"
    by simp_all
  have a: "PStr ''a'' \<in> set (statuses ?m)"
    by (simp add: statuses_def)
  have c: "card (set (statuses ?m)) = 2"
    by (simp add: statuses_def)
  from target_auto_registered [OF h1 h2 h3 h4 h5] a c h1 h5 show ?thesis
    by simp
qed

end
